theory Spec2Isabelle
  imports Main "HOL-Library.Multiset" "HOL-Library.Char_ord" "HOL-Library.List_Lexorder"
    "HOL-Library.Product_Lexorder"
begin

section \<open>Migration fetching of go-ipfs: \<^verbatim>\<open>repo/fsrepo/migrations\<close>\<close>

text \<open>
  A shallow embedding of \<^verbatim>\<open>fetch.go\<close> and \<^verbatim>\<open>versions.go\<close>. Strings are byte
  lists, as Go strings are. Everything a function does besides returning a value
  (network calls, file system changes, log lines) is written into the value it returns.
\<close>

subsection \<open>Errors\<close>

text \<open>
  Go's \<^verbatim>\<open>error\<close> values that occur in the two files: \<^verbatim>\<open>errors.New\<close> and
  \<^verbatim>\<open>fmt.Errorf\<close> make an \<open>errorString\<close>, \<^verbatim>\<open>os.PathError\<close> has its three fields, and
  the sentinels of \<^verbatim>\<open>os\<close>, \<^verbatim>\<open>io\<close> and \<^verbatim>\<open>bufio\<close> are constants.
\<close>

datatype error =
    errorString string
  | PathError string string error
  | ErrExist
  | ErrNotExist
  | ErrPermission
  | ErrTooLong
  | ErrEOF
  | ErrClosed

fun Error :: "error \<Rightarrow> string" where
  "Error (errorString s) = s"
| "Error (PathError op p e) = op @ '' '' @ p @ '': '' @ Error e"
| "Error ErrExist = ''file already exists''"
| "Error ErrNotExist = ''file does not exist''"
| "Error ErrPermission = ''permission denied''"
| "Error ErrTooLong = ''bufio.Scanner: token too long''"
| "Error ErrEOF = ''EOF''"
| "Error ErrClosed = ''read on closed body''"



subsection \<open>Formatting\<close>

text \<open>
  \<^verbatim>\<open>fmt.Sprintf\<close> for string operands. The verb \<^verbatim>\<open>%s\<close> copies the next operand, a
  missing operand prints \<^verbatim>\<open>%!s(MISSING)\<close>, operands left over are reported in an
  \<^verbatim>\<open>%!(EXTRA ...)\<close> suffix, \<^verbatim>\<open>%%\<close> is a percent sign and a percent sign that ends the
  format prints \<^verbatim>\<open>%!(NOVERB)\<close>. The two files use no other verb; any other
  character after a percent sign is copied as it stands.
\<close>

fun extraOperands :: "string list \<Rightarrow> string" where
  "extraOperands [] = []"
| "extraOperands [a] = ''string='' @ a"
| "extraOperands (a # as) = ''string='' @ a @ '', '' @ extraOperands as"

fun Sprintf :: "string \<Rightarrow> string list \<Rightarrow> string" where
  "Sprintf [] [] = []"
| "Sprintf [] (a # as) = ''%!(EXTRA '' @ extraOperands (a # as) @ '')''"
| "Sprintf [c] as = (if c = CHR ''%'' then ''%!(NOVERB)'' else c # Sprintf [] as)"
| "Sprintf (c # d # cs) as =
     (if c = CHR ''%'' then
        (if d = CHR ''s'' then
           (case as of [] \<Rightarrow> ''%!s(MISSING)'' @ Sprintf cs []
                     | a # as' \<Rightarrow> a @ Sprintf cs as')
         else if d = CHR ''%'' then CHR ''%'' # Sprintf cs as
         else c # d # Sprintf cs as)
      else c # Sprintf (d # cs) as)"

subsection \<open>Host platform and distribution names\<close>

text \<open>
  \<^verbatim>\<open>runtime.GOOS\<close> and \<^verbatim>\<open>runtime.GOARCH\<close> are constants of the build; they are the
  fields of the host. \<^verbatim>\<open>ipfsDistPath\<close>, the distribution root, is a constant of the
  package declared outside the two files and is a parameter here.
\<close>

record host =
  GOOS :: string
  GOARCH :: string

definition makeArchiveName :: "host \<Rightarrow> string \<Rightarrow> string \<Rightarrow> string \<Rightarrow> string" where
  "makeArchiveName h name ver atype =
     Sprintf ''%s_%s_%s-%s.%s'' [name, ver, GOOS h, GOARCH h, atype]"

definition makeIpfsPath :: "string \<Rightarrow> string \<Rightarrow> string \<Rightarrow> string \<Rightarrow> string" where
  "makeIpfsPath ipfsDistPath dist ver arcName =
     Sprintf ''%s/%s/%s/%s'' [ipfsDistPath, dist, ver, arcName]"


subsection \<open>Byte streams and the size limit\<close>

text \<open>
  The body of a daemon or HTTP response: the bytes still to come, the error that ends
  them (\<open>None\<close> for a clean end) and whether the body has been closed. \<^verbatim>\<open>Read(p)\<close>
  with \<open>len(p) = k\<close> hands out at most \<open>k\<close> bytes.
\<close>

record source =
  pending :: string
  fault :: "error option"
  closed :: bool

definition source_Read :: "nat \<Rightarrow> source \<Rightarrow> (string \<times> error option) \<times> source" where
  "source_Read k s =
     (if closed s then (([], Some ErrClosed), s)
      else if pending s = [] then (([], Some (case fault s of None \<Rightarrow> ErrEOF | Some e \<Rightarrow> e)), s)
      else ((take k (pending s), None), s\<lparr>pending := drop k (pending s)\<rparr>))"

definition source_Close :: "source \<Rightarrow> error option \<times> source" where
  "source_Close s = (None, s\<lparr>closed := True\<rparr>)"

definition fetchSizeLimit :: int where
  "fetchSizeLimit = 1024 * 1024 * 512"

text \<open>
  \<^verbatim>\<open>limitReadCloser\<close> embeds an \<^verbatim>\<open>io.Reader\<close> and an \<^verbatim>\<open>io.Closer\<close>.
  \<^verbatim>\<open>newLimitReadCloser\<close> fills them with \<^verbatim>\<open>io.LimitReader(rc, limit)\<close> and with
  \<open>rc\<close> itself, so both refer to the one underlying object: \<open>R\<close> is its state and
  \<open>N\<close> the counter of the \<^verbatim>\<open>io.LimitedReader\<close>. The methods of the underlying
  object are arguments, so the wrapper is defined for every byte source.
\<close>

record 's limitReadCloser =
  R :: 's
  N :: int

definition newLimitReadCloser :: "'s \<Rightarrow> int \<Rightarrow> 's limitReadCloser" where
  "newLimitReadCloser rc limit = \<lparr>R = rc, N = limit\<rparr>"

text \<open>
  \<^verbatim>\<open>io.LimitedReader.Read\<close>: end of data once \<open>N \<le> 0\<close>; otherwise the buffer is cut
  to \<open>N\<close> bytes, the underlying reader is called once and \<open>N\<close> goes down by what it
  returned.
\<close>

definition LimitedReader_Read ::
  "(nat \<Rightarrow> 's \<Rightarrow> (string \<times> error option) \<times> 's) \<Rightarrow> nat \<Rightarrow> 's limitReadCloser
     \<Rightarrow> (string \<times> error option) \<times> 's limitReadCloser" where
  "LimitedReader_Read rd k l =
     (if N l \<le> 0 then (([], Some ErrEOF), l)
      else
        (let k' = (if int k > N l then nat (N l) else k);
             res = rd k' (R l)
         in (fst res, \<lparr>R = snd res, N = N l - int (length (fst (fst res)))\<rparr>)))"

definition limitReadCloser_Close ::
  "('s \<Rightarrow> error option \<times> 's) \<Rightarrow> 's limitReadCloser \<Rightarrow> error option \<times> 's limitReadCloser" where
  "limitReadCloser_Close cl l = (let res = cl (R l) in (fst res, l\<lparr>R := snd res\<rparr>))"

text \<open>A caller's successive \<^verbatim>\<open>Read\<close> calls with buffers of the given sizes.\<close>

fun readMany ::
  "(nat \<Rightarrow> 's \<Rightarrow> (string \<times> error option) \<times> 's) \<Rightarrow> nat list \<Rightarrow> 's limitReadCloser
     \<Rightarrow> (string \<times> error option) list \<times> 's limitReadCloser" where
  "readMany rd [] l = ([], l)"
| "readMany rd (k # ks) l =
     (let r1 = LimitedReader_Read rd k l; r2 = readMany rd ks (snd r1)
      in (fst r1 # fst r2, snd r2))"

text \<open>
  Reading a response body to its end, as \<^verbatim>\<open>io.Copy\<close> and \<^verbatim>\<open>bufio.Scanner\<close> do:
  \<^verbatim>\<open>Read\<close> is called until it reports an error; \<^verbatim>\<open>io.EOF\<close> is the clean end.
\<close>

definition copyBufSize :: nat where
  "copyBufSize = 32 * 1024"

function drain :: "source limitReadCloser \<Rightarrow> (string \<times> error option) \<times> source limitReadCloser" where
  "drain l =
     (let r = LimitedReader_Read source_Read copyBufSize l in
      case snd (fst r) of
        Some e \<Rightarrow> ((fst (fst r), if e = ErrEOF then None else Some e), snd r)
      | None \<Rightarrow> (let r' = drain (snd r) in ((fst (fst r) @ fst (fst r'), snd (fst r')), snd r')))"
  by pat_completeness auto
termination
proof (relation "measure (\<lambda>l. length (pending (R l)))")
  show "wf (measure (\<lambda>l. length (pending (R l))))" by simp
next
  fix l :: "source limitReadCloser" and r
  assume r: "r = LimitedReader_Read source_Read copyBufSize l"
    and none: "snd (fst r) = None"
  have pos: "0 < N l"
    using r none by (cases "N l \<le> 0") (auto simp: LimitedReader_Read_def)
  define k' where "k' = (if int copyBufSize > N l then nat (N l) else copyBufSize)"
  have k'pos: "0 < k'" using pos by (simp add: k'_def copyBufSize_def)
  have res: "r = (fst (source_Read k' (R l)),
                  \<lparr>R = snd (source_Read k' (R l)),
                   N = N l - int (length (fst (fst (source_Read k' (R l)))))\<rparr>)"
    using r pos by (simp add: LimitedReader_Read_def Let_def k'_def)
  have live: "\<not> closed (R l)" "pending (R l) \<noteq> []"
    using none res by (auto simp: source_Read_def split: if_splits)
  then have "pending (R (snd r)) = drop k' (pending (R l))"
    using res by (simp add: source_Read_def)
  then show "(snd r, l) \<in> measure (\<lambda>l. length (pending (R l)))"
    using live k'pos by simp
qed

declare drain.simps [simp del]

subsection \<open>The two transports\<close>

text \<open>
  What the collaborators answer is given: \<^verbatim>\<open>ApiEndpoint\<close> (declared elsewhere in the
  package) and the daemon shell of \<^verbatim>\<open>go-ipfs-api\<close>, and \<^verbatim>\<open>net/http\<close>. Each call
  to a collaborator is written to a trace, in the order of the calls.
\<close>

record Response =
  Output :: source
  RespError :: "error option"

record http_Response =
  StatusCode :: int
  Status :: string
  Body :: source

record network =
  ApiEndpoint :: "error + string"
  IsUp :: "string \<Rightarrow> bool"
  Send :: "string \<Rightarrow> string \<Rightarrow> error + Response"
  NewRequest :: "string \<Rightarrow> error option"
  Do :: "string \<Rightarrow> error + http_Response"

datatype event =
    CallApiEndpoint
  | CallIsUp string
  | CallSendCat string string
  | LogPrint string
  | CallNewRequest string
  | CallDo string string
  | CloseBody string
  | CloseStream
  | CallStat string
  | CallTempDir string
  | CallCreate string
  | CallCopy string
  | CallUnpack string string
  | CallChmod string
  | CallRemoveAll string

definition gatewayURL :: string where
  "gatewayURL = ''https://ipfs.io''"

definition ipfsFetch ::
  "network \<Rightarrow> string \<Rightarrow> (error + source limitReadCloser) \<times> event list" where
  "ipfsFetch net ipfsPath =
     (case ApiEndpoint net of
        Inl err \<Rightarrow> (Inl err, [CallApiEndpoint])
      | Inr apiEp \<Rightarrow>
          if \<not> IsUp net apiEp then
            (Inl (errorString ''ipfs api shell not up''), [CallApiEndpoint, CallIsUp apiEp])
          else
            (case Send net apiEp ipfsPath of
               Inl err \<Rightarrow>
                 (Inl err, [CallApiEndpoint, CallIsUp apiEp, CallSendCat apiEp ipfsPath])
             | Inr resp \<Rightarrow>
                 (case RespError resp of
                    Some err \<Rightarrow>
                      (Inl err, [CallApiEndpoint, CallIsUp apiEp, CallSendCat apiEp ipfsPath])
                  | None \<Rightarrow>
                      (Inr (newLimitReadCloser (Output resp) fetchSizeLimit),
                       [CallApiEndpoint, CallIsUp apiEp, CallSendCat apiEp ipfsPath]))))"

text \<open>\<^verbatim>\<open>ioutil.ReadAll\<close> on a response body.\<close>

definition ioutil_ReadAll :: "source \<Rightarrow> error + string" where
  "ioutil_ReadAll s =
     (if closed s then Inl ErrClosed
      else case fault s of None \<Rightarrow> Inr (pending s) | Some e \<Rightarrow> Inl e)"

definition httpFetch ::
  "network \<Rightarrow> string \<Rightarrow> (error + source limitReadCloser) \<times> event list" where
  "httpFetch net url =
     (case NewRequest net url of
        Some err \<Rightarrow>
          (Inl (errorString (Sprintf ''http.NewRequest error: %s'' [Error err])),
           [CallNewRequest url])
      | None \<Rightarrow>
          (case Do net url of
             Inl err \<Rightarrow>
               (Inl (errorString (Sprintf ''http.DefaultClient.Do error: %s'' [Error err])),
                [CallNewRequest url, CallDo url ''go-ipfs''])
           | Inr resp \<Rightarrow>
               if StatusCode resp \<ge> 400 then
                 (case ioutil_ReadAll (Body resp) of
                    Inl err \<Rightarrow>
                      (Inl (errorString (Sprintf ''error reading error body: %s'' [Error err])),
                       [CallNewRequest url, CallDo url ''go-ipfs'', CloseBody url])
                  | Inr mes \<Rightarrow>
                      (Inl (errorString
                              (Sprintf ''GET %s error: %s: %s'' [url, Status resp, mes])),
                       [CallNewRequest url, CallDo url ''go-ipfs'', CloseBody url]))
               else
                 (Inr (newLimitReadCloser (Body resp) fetchSizeLimit),
                  [CallNewRequest url, CallDo url ''go-ipfs''])))"

definition fetch ::
  "network \<Rightarrow> string \<Rightarrow> (error + source limitReadCloser) \<times> event list" where
  "fetch net ipfsPath =
     (case ipfsFetch net ipfsPath of
        (Inr rc, t) \<Rightarrow> (Inr rc, t @ [LogPrint ''using local ipfs daemon for transfer''])
      | (Inl err, t) \<Rightarrow>
          (let h = httpFetch net (gatewayURL @ ipfsPath) in (fst h, t @ snd h)))"

subsection \<open>Reading traces\<close>

fun isDaemonCall :: "event \<Rightarrow> bool" where
  "isDaemonCall CallApiEndpoint = True"
| "isDaemonCall (CallIsUp ep) = True"
| "isDaemonCall (CallSendCat ep p) = True"
| "isDaemonCall e = False"

fun isHttpCall :: "event \<Rightarrow> bool" where
  "isHttpCall (CallNewRequest u) = True"
| "isHttpCall (CallDo u a) = True"
| "isHttpCall (CloseBody u) = True"
| "isHttpCall e = False"

text \<open>The URLs for which a request was built, and those for which one was sent.\<close>

fun httpAttempts :: "event list \<Rightarrow> string list" where
  "httpAttempts [] = []"
| "httpAttempts (CallNewRequest u # t) = u # httpAttempts t"
| "httpAttempts (e # t) = httpAttempts t"

fun httpSends :: "event list \<Rightarrow> string list" where
  "httpSends [] = []"
| "httpSends (CallDo u a # t) = u # httpSends t"
| "httpSends (e # t) = httpSends t"

text \<open>
  The four ways the daemon attempt fails: no endpoint, daemon not up, the RPC fails, the
  RPC's answer has its error field set.
\<close>

definition daemonFails :: "network \<Rightarrow> string \<Rightarrow> bool" where
  "daemonFails net p =
     (case ApiEndpoint net of
        Inl err \<Rightarrow> True
      | Inr ep \<Rightarrow> \<not> IsUp net ep \<or>
          (case Send net ep p of Inl err \<Rightarrow> True | Inr resp \<Rightarrow> RespError resp \<noteq> None))"

subsection \<open>Example collaborators\<close>

text \<open>
  A body that holds the given bytes and ends cleanly, and a network whose daemon (up or
  not) and whose gateway both serve the given body.
\<close>

definition bytes :: "string \<Rightarrow> source" where
  "bytes s = \<lparr>pending = s, fault = None, closed = False\<rparr>"

definition exampleNet :: "bool \<Rightarrow> source \<Rightarrow> network" where
  "exampleNet up s =
     \<lparr>ApiEndpoint = Inr ''/ip4/127.0.0.1/tcp/5001'',
      IsUp = (\<lambda>ep. up),
      Send = (\<lambda>ep p. Inr \<lparr>Output = s, RespError = None\<rparr>),
      NewRequest = (\<lambda>u. None),
      Do = (\<lambda>u. Inr \<lparr>StatusCode = 200, Status = ''200 OK'', Body = s\<rparr>)\<rparr>"

subsection \<open>Strings and line scanning\<close>

fun hasPrefix :: "string \<Rightarrow> string \<Rightarrow> bool" where
  "hasPrefix s [] = True"
| "hasPrefix [] (p # ps) = False"
| "hasPrefix (c # cs) (p # ps) = (c = p \<and> hasPrefix cs ps)"

text \<open>\<^verbatim>\<open>strings.Contains(s, substr)\<close>.\<close>

fun strings_Contains :: "string \<Rightarrow> string \<Rightarrow> bool" where
  "strings_Contains [] sub = hasPrefix [] sub"
| "strings_Contains (c # cs) sub = (hasPrefix (c # cs) sub \<or> strings_Contains cs sub)"

text \<open>\<^verbatim>\<open>strings.TrimLeft(s, cutset)\<close> removes every leading byte that is in the cutset.\<close>

definition strings_TrimLeft :: "string \<Rightarrow> string \<Rightarrow> string" where
  "strings_TrimLeft s cutset = dropWhile (\<lambda>c. c \<in> set cutset) s"

text \<open>
  \<^verbatim>\<open>bufio.Scanner\<close> with its default split function \<^verbatim>\<open>ScanLines\<close> and its default
  buffer. A token is the text up to the next newline, without a trailing carriage
  return; text after the last newline is a token if it is not empty. The buffer grows
  to \<^verbatim>\<open>MaxScanTokenSize\<close> bytes and must hold a line together with its newline: when
  65536 bytes without a newline are waiting, \<^verbatim>\<open>Scan\<close> returns false for good and
  \<^verbatim>\<open>Err\<close> is \<^verbatim>\<open>ErrTooLong\<close>. The result is the tokens that \<^verbatim>\<open>Scan\<close> delivered and the
  error it stopped with.
\<close>

definition MaxScanTokenSize :: nat where
  "MaxScanTokenSize = 64 * 1024"

definition dropCR :: "string \<Rightarrow> string" where
  "dropCR data = (if data \<noteq> [] \<and> last data = CHR 0x0D then butlast data else data)"

function scanTokens :: "string \<Rightarrow> string list \<times> error option" where
  "scanTokens data =
     (if data = [] then ([], None)
      else
        (let line = takeWhile (\<lambda>c. c \<noteq> CHR 0x0A) data in
         if MaxScanTokenSize \<le> length line then ([], Some ErrTooLong)
         else
           (let r = scanTokens (drop (Suc (length line)) data)
            in (dropCR line # fst r, snd r))))"
  by pat_completeness auto
termination
  by (relation "measure length") auto

declare scanTokens.simps [simp del]

text \<open>
  Scanning a stream: the scanner reads it to its end; a read error other than
  \<^verbatim>\<open>io.EOF\<close> is what \<^verbatim>\<open>Err\<close> reports when no token was too long.
\<close>

definition scanStream :: "source limitReadCloser \<Rightarrow> string list \<times> error option" where
  "scanStream rc =
     (let d = fst (drain rc); r = scanTokens (fst d)
      in (fst r, case snd r of Some e \<Rightarrow> Some e | None \<Rightarrow> snd d))"

text \<open>The lines of a text, cut at the newlines, whatever their length.\<close>

function splitLines :: "string \<Rightarrow> string list" where
  "splitLines data =
     (if data = [] then []
      else takeWhile (\<lambda>c. c \<noteq> CHR 0x0A) data
             # splitLines (drop (Suc (length (takeWhile (\<lambda>c. c \<noteq> CHR 0x0A) data))) data))"
  by pat_completeness auto
termination
  by (relation "measure length") auto

declare splitLines.simps [simp del]

subsection \<open>The platform name\<close>

text \<open>
  The process launcher: whether \<^verbatim>\<open>sh\<close> can be started, and what \<^verbatim>\<open>ldd --version\<close>
  prints on standard output and standard error together and exits with. In
  \<^verbatim>\<open>sh -c "ldd --version || true"\<close> the shell runs \<^verbatim>\<open>true\<close> when \<^verbatim>\<open>ldd\<close> exits with
  a status other than 0, and the status of the whole command is that of the last command
  run. \<^verbatim>\<open>CombinedOutput\<close> reports an error when the command cannot be started or exits
  with a status other than 0.
\<close>

record launcher =
  startError :: "error option"
  lddOutput :: string
  lddStatus :: int

datatype command = RunShell string

definition or_true :: "string \<times> int \<Rightarrow> string \<times> int" where
  "or_true r = (if snd r \<noteq> 0 then (fst r, 0) else r)"

definition CombinedOutput :: "launcher \<Rightarrow> string \<times> error option" where
  "CombinedOutput la =
     (case startError la of
        Some err \<Rightarrow> ([], Some err)
      | None \<Rightarrow>
          (let r = or_true (lddOutput la, lddStatus la)
           in (fst r, if snd r \<noteq> 0 then Some (errorString ''exit status'') else None)))"

fun scanForMusl :: "string list \<Rightarrow> bool" where
  "scanForMusl [] = False"
| "scanForMusl (text # rest) = (if strings_Contains text ''musl'' then True else scanForMusl rest)"

text \<open>The second component lists the commands that were run.\<close>

definition osWithVariant :: "host \<Rightarrow> launcher \<Rightarrow> (error + string) \<times> command list" where
  "osWithVariant h la =
     (if GOOS h \<noteq> ''linux'' then (Inr (GOOS h), [])
      else
        (case CombinedOutput la of
           (out, Some err) \<Rightarrow> (Inl err, [RunShell ''ldd --version || true''])
         | (out, None) \<Rightarrow>
             (if scanForMusl (fst (scanTokens out)) then Inr ''linux-musl'' else Inr ''linux'',
              [RunShell ''ldd --version || true''])))"

subsection \<open>Paths\<close>

text \<open>\<^verbatim>\<open>strings.Split(s, sep)\<close> for a separator of one byte: always at least one part.\<close>

fun splitOn :: "char \<Rightarrow> string \<Rightarrow> string list" where
  "splitOn d [] = [] # []"
| "splitOn d (c # cs) =
     (if c = d then [] # splitOn d cs
      else (case splitOn d cs of [] \<Rightarrow> [c] # [] | p # ps \<Rightarrow> (c # p) # ps))"

fun joinWith :: "string \<Rightarrow> string list \<Rightarrow> string" where
  "joinWith sep [] = []"
| "joinWith sep [a] = a"
| "joinWith sep (a # as) = a @ sep @ joinWith sep as"

text \<open>
  \<^verbatim>\<open>path.Clean\<close>: empty and \<open>.\<close> elements go, an inner \<open>..\<close> removes the element
  before it, a \<open>..\<close> at the root goes, and the empty result is \<open>.\<close>. The stack holds
  the elements kept so far, the last one first.
\<close>

definition cleanPush :: "bool \<Rightarrow> string list \<Rightarrow> string \<Rightarrow> string list" where
  "cleanPush rooted st c =
     (if c = ''..'' then
        (case st of
           [] \<Rightarrow> if rooted then [] else [c]
         | e # r \<Rightarrow> if e = ''..'' then c # st else r)
      else c # st)"

definition path_Clean :: "string \<Rightarrow> string" where
  "path_Clean p =
     (let rooted = hasPrefix p ''/'';
          elems = filter (\<lambda>c. c \<noteq> [] \<and> c \<noteq> ''.'') (splitOn CHR ''/'' p);
          body = joinWith ''/'' (rev (foldl (cleanPush rooted) [] elems))
      in if rooted then CHR ''/'' # body else if body = [] then ''.'' else body)"

text \<open>\<^verbatim>\<open>path.Join\<close>: leading empty elements are ignored, the rest is joined and cleaned.\<close>

definition path_Join :: "string list \<Rightarrow> string" where
  "path_Join elem =
     (let es = dropWhile (\<lambda>e. e = []) elem
      in if es = [] then [] else path_Clean (joinWith ''/'' es))"

subsection \<open>Semantic versions\<close>

text \<open>
  The package \<^verbatim>\<open>github.com/coreos/go-semver/semver\<close> (release 0.3.0): the type
  \<^verbatim>\<open>Version\<close>, its parser \<^verbatim>\<open>NewVersion\<close>, \<^verbatim>\<open>String\<close> and \<^verbatim>\<open>LessThan\<close>.
\<close>

record Version =
  Major :: int
  Minor :: int
  Patch :: int
  PreRelease :: string
  Metadata :: string

text \<open>
  \<^verbatim>\<open>splitOff(&input, delim)\<close> cuts the input at the first delimiter and returns what
  follows it; the first component is the input as the call leaves it.
\<close>

definition splitOff :: "string \<Rightarrow> char \<Rightarrow> string \<times> string" where
  "splitOff input delim =
     (if delim \<in> set input
      then (takeWhile (\<lambda>c. c \<noteq> delim) input, tl (dropWhile (\<lambda>c. c \<noteq> delim) input))
      else (input, []))"

text \<open>\<^verbatim>\<open>strings.SplitN(version, ".", 3)\<close>, when it has three parts.\<close>

definition dotParts :: "string \<Rightarrow> (string \<times> string \<times> string) option" where
  "dotParts version =
     (if CHR ''.'' \<notin> set version then None
      else
        (let r = tl (dropWhile (\<lambda>c. c \<noteq> CHR ''.'') version) in
         if CHR ''.'' \<notin> set r then None
         else Some (takeWhile (\<lambda>c. c \<noteq> CHR ''.'') version,
                    takeWhile (\<lambda>c. c \<noteq> CHR ''.'') r,
                    tl (dropWhile (\<lambda>c. c \<noteq> CHR ''.'') r))))"

definition isDigit :: "char \<Rightarrow> bool" where
  "isDigit c = (c \<in> set ''0123456789'')"

definition isIdentChar :: "char \<Rightarrow> bool" where
  "isIdentChar c =
     (c \<in> set ''0123456789ABCDEFGHIJKLMNOPQRSTUVWXYZabcdefghijklmnopqrstuvwxyz-'')"

text \<open>
  \<^verbatim>\<open>validateIdentifier\<close>: the empty string passes, any other must match
  \<^verbatim>\<open>^[0-9A-Za-z-]+(\.[0-9A-Za-z-]+)*$\<close>.
\<close>

definition validateIdentifier :: "string \<Rightarrow> bool" where
  "validateIdentifier ident =
     (ident = [] \<or> list_all (\<lambda>part. part \<noteq> [] \<and> list_all isIdentChar part) (splitOn CHR ''.'' ident))"

text \<open>
  \<^verbatim>\<open>strconv.ParseInt(s, 10, 64)\<close>: an optional sign, then one or more decimal digits,
  and the value must fit \<^verbatim>\<open>int64\<close>. \<^verbatim>\<open>strconv.Atoi\<close> is the same on a 64-bit host.
\<close>

definition digitsValue :: "string \<Rightarrow> int" where
  "digitsValue ds = foldl (\<lambda>n c. 10 * n + (int (of_char c) - 48)) 0 ds"

definition ParseUint :: "string \<Rightarrow> int option" where
  "ParseUint ds = (if ds \<noteq> [] \<and> list_all isDigit ds then Some (digitsValue ds) else None)"

definition ParseInt :: "string \<Rightarrow> int option" where
  "ParseInt s =
     (case s of
        [] \<Rightarrow> None
      | c # cs \<Rightarrow>
          if c = CHR ''+'' then
            (case ParseUint cs of
               None \<Rightarrow> None
             | Some un \<Rightarrow> if un \<ge> 9223372036854775808 then None else Some un)
          else if c = CHR ''-'' then
            (case ParseUint cs of
               None \<Rightarrow> None
             | Some un \<Rightarrow> if un > 9223372036854775808 then None else Some (- un))
          else
            (case ParseUint s of
               None \<Rightarrow> None
             | Some un \<Rightarrow> if un \<ge> 9223372036854775808 then None else Some un))"

text \<open>
  \<^verbatim>\<open>NewVersion\<close> (through \<^verbatim>\<open>Set\<close>): the build metadata is cut off at the first
  \<open>+\<close>, then the pre-release at the first \<open>-\<close>; what is left must have three dotted
  parts, both identifiers must be valid and each part must parse as an integer.
  \<open>None\<close> stands for any of its errors.
\<close>

definition NewVersion :: "string \<Rightarrow> Version option" where
  "NewVersion version =
     (let m = splitOff version CHR ''+'';
          metadata = snd m;
          p = splitOff (fst m) CHR ''-'';
          preRelease = snd p
      in case dotParts (fst p) of
           None \<Rightarrow> None
         | Some (d0, d1, d2) \<Rightarrow>
             if \<not> validateIdentifier preRelease then None
             else if \<not> validateIdentifier metadata then None
             else
               (case ParseInt d0 of
                  None \<Rightarrow> None
                | Some major \<Rightarrow>
                    (case ParseInt d1 of
                       None \<Rightarrow> None
                     | Some minor \<Rightarrow>
                         (case ParseInt d2 of
                            None \<Rightarrow> None
                          | Some patch \<Rightarrow>
                              Some \<lparr>Major = major, Minor = minor, Patch = patch,
                                    PreRelease = preRelease, Metadata = metadata\<rparr>))))"

text \<open>The verb \<^verbatim>\<open>%d\<close> on an \<^verbatim>\<open>int64\<close>.\<close>

function showNat :: "nat \<Rightarrow> string" where
  "showNat n =
     (if n < 10 then [''0123456789'' ! n]
      else showNat (n div 10) @ [''0123456789'' ! (n mod 10)])"
  by pat_completeness auto
termination
  by (relation "measure id") auto

declare showNat.simps [simp del]

definition showInt :: "int \<Rightarrow> string" where
  "showInt i = (if i < 0 then CHR ''-'' # showNat (nat (- i)) else showNat (nat i))"

definition Version_String :: "Version \<Rightarrow> string" where
  "Version_String v =
     showInt (Major v) @ ''.'' @ showInt (Minor v) @ ''.'' @ showInt (Patch v)
       @ (if PreRelease v \<noteq> [] then ''-'' @ PreRelease v else [])
       @ (if Metadata v \<noteq> [] then ''+'' @ Metadata v else [])"

text \<open>
  \<^verbatim>\<open>Compare\<close>: the three numbers first (\<^verbatim>\<open>recursiveCompare\<close> on the two slices of
  three), then the pre-releases; the metadata is not compared. Go compares strings byte
  by byte.
\<close>

fun recursiveCompare :: "int list \<Rightarrow> int list \<Rightarrow> int" where
  "recursiveCompare [] versionB = 0"
| "recursiveCompare (a # as) [] = 0"
| "recursiveCompare (a # as) (b # bs) =
     (if a > b then 1 else if a < b then - 1 else recursiveCompare as bs)"

fun stringLess :: "string \<Rightarrow> string \<Rightarrow> bool" where
  "stringLess [] [] = False"
| "stringLess [] (b # bs) = True"
| "stringLess (a # as) [] = False"
| "stringLess (a # as) (b # bs) =
     ((of_char a :: nat) < of_char b \<or> (a = b \<and> stringLess as bs))"

fun recursivePreReleaseCompare :: "string list \<Rightarrow> string list \<Rightarrow> int" where
  "recursivePreReleaseCompare [] [] = 0"
| "recursivePreReleaseCompare [] (b # bs) = - 1"
| "recursivePreReleaseCompare (a # as) [] = 1"
| "recursivePreReleaseCompare (a # as) (b # bs) =
     (let aI = ParseInt a; bI = ParseInt b in
      if aI \<noteq> None \<and> bI = None then - 1
      else if aI = None \<and> bI \<noteq> None then 1
      else if aI \<noteq> None \<and> bI \<noteq> None \<and> the aI > the bI then 1
      else if aI \<noteq> None \<and> bI \<noteq> None \<and> the aI < the bI then - 1
      else if stringLess b a then 1
      else if stringLess a b then - 1
      else recursivePreReleaseCompare as bs)"

definition preReleaseCompare :: "Version \<Rightarrow> Version \<Rightarrow> int" where
  "preReleaseCompare versionA versionB =
     (let a = PreRelease versionA; b = PreRelease versionB in
      if length a = 0 \<and> length b > 0 then 1
      else if length b = 0 \<and> length a > 0 then - 1
      else recursivePreReleaseCompare (splitOn CHR ''.'' a) (splitOn CHR ''.'' b))"

definition Slice :: "Version \<Rightarrow> int list" where
  "Slice v = [Major v, Minor v, Patch v]"

definition Compare :: "Version \<Rightarrow> Version \<Rightarrow> int" where
  "Compare v versionB =
     (let cmp = recursiveCompare (Slice v) (Slice versionB)
      in if cmp \<noteq> 0 then cmp else preReleaseCompare v versionB)"

definition LessThan :: "Version \<Rightarrow> Version \<Rightarrow> bool" where
  "LessThan v versionB = (Compare v versionB < 0)"

subsection \<open>Precedence as a linear order\<close>

text \<open>
  For the proofs: the precedence of \<open>Compare\<close> is the lexicographic order of these keys.
  An identifier of a pre-release is numeric when \<^verbatim>\<open>Atoi\<close> accepts it; numeric ones come
  before the others and are compared as numbers first.
\<close>

definition idKey :: "string \<Rightarrow> bool \<times> int \<times> string" where
  "idKey s = (case ParseInt s of None \<Rightarrow> (True, 0, s) | Some i \<Rightarrow> (False, i, s))"

definition verKey :: "Version \<Rightarrow> (int \<times> int \<times> int) \<times> bool \<times> (bool \<times> int \<times> string) list" where
  "verKey v =
     ((Major v, Minor v, Patch v), PreRelease v = [], map idKey (splitOn CHR ''.'' (PreRelease v)))"

subsection \<open>Sorting\<close>

text \<open>
  \<^verbatim>\<open>sort.Sort\<close> works through \<^verbatim>\<open>Less(i, j)\<close> and \<^verbatim>\<open>Swap(i, j)\<close>. Its algorithm is
  the standard library's and has changed between Go releases, so \<open>DistVersions\<close> takes
  it as an argument, and the properties below ask of it only what its documentation
  promises (\<open>sortContract\<close>): the result is a rearrangement of the input, in the order
  of \<^verbatim>\<open>Less\<close>; it need not be stable. \<open>insertionSort\<close> is the routine of package
  \<^verbatim>\<open>sort\<close> that every release runs on a slice of up to six elements.
\<close>

definition Swap :: "'a list \<Rightarrow> nat \<Rightarrow> nat \<Rightarrow> 'a list" where
  "Swap data i j = data[i := data ! j, j := data ! i]"

function insertionInner :: "('a \<Rightarrow> 'a \<Rightarrow> bool) \<Rightarrow> 'a list \<Rightarrow> nat \<Rightarrow> 'a list" where
  "insertionInner lt data j =
     (if j > 0 \<and> lt (data ! j) (data ! (j - 1))
      then insertionInner lt (Swap data j (j - 1)) (j - 1)
      else data)"
  by pat_completeness auto
termination
  by (relation "measure (\<lambda>(lt, data, j). j)") auto

declare insertionInner.simps [simp del]

lemma length_insertionInner: "length (insertionInner lt data j) = length data"
  by (induction lt data j rule: insertionInner.induct)
     (subst insertionInner.simps, simp add: Swap_def)

function insertionOuter :: "('a \<Rightarrow> 'a \<Rightarrow> bool) \<Rightarrow> 'a list \<Rightarrow> nat \<Rightarrow> 'a list" where
  "insertionOuter lt data i =
     (if i < length data then insertionOuter lt (insertionInner lt data i) (Suc i)
      else data)"
  by pat_completeness auto
termination
  by (relation "measure (\<lambda>(lt, data, i). length data - i)")
     (auto simp: length_insertionInner)

declare insertionOuter.simps [simp del]

definition insertionSort :: "('a \<Rightarrow> 'a \<Rightarrow> bool) \<Rightarrow> 'a list \<Rightarrow> 'a list" where
  "insertionSort lt data = insertionOuter lt data 1"

text \<open>
  For the proofs: what the inner loop does to the sorted part, held with its last
  element first, and what the whole of \<open>insertionSort\<close> computes.
\<close>

fun insertRev :: "('a \<Rightarrow> 'a \<Rightarrow> bool) \<Rightarrow> 'a \<Rightarrow> 'a list \<Rightarrow> 'a list" where
  "insertRev lt x [] = [x]"
| "insertRev lt x (y # ys) = (if lt x y then y # insertRev lt x ys else x # y # ys)"

fun isortRev :: "('a \<Rightarrow> 'a \<Rightarrow> bool) \<Rightarrow> 'a list \<Rightarrow> 'a list \<Rightarrow> 'a list" where
  "isortRev lt acc [] = acc"
| "isortRev lt acc (x # xs) = isortRev lt (insertRev lt x acc) xs"

text \<open>\<^verbatim>\<open>sort.Reverse\<close> swaps the arguments of \<^verbatim>\<open>Less\<close>.\<close>

definition Reverse :: "('a \<Rightarrow> 'a \<Rightarrow> bool) \<Rightarrow> 'a \<Rightarrow> 'a \<Rightarrow> bool" where
  "Reverse lt a b = lt b a"

type_synonym sorter = "(Version \<Rightarrow> Version \<Rightarrow> bool) \<Rightarrow> Version list \<Rightarrow> Version list"

definition sortContract :: "sorter \<Rightarrow> bool" where
  "sortContract srt \<longleftrightarrow>
     (\<forall>lt xs. mset (srt lt xs) = mset xs)
     \<and> (\<forall>xs. sorted_wrt (\<lambda>a b. \<not> LessThan b a) (srt LessThan xs))
     \<and> (\<forall>xs. sorted_wrt (\<lambda>a b. \<not> LessThan a b) (srt (Reverse LessThan) xs))"

subsection \<open>The version catalogue\<close>

definition distVersions :: string where
  "distVersions = ''versions''"

text \<open>The scanning loop of \<open>DistVersions\<close>: a line that does not parse is passed over.\<close>

fun parseLines :: "string \<Rightarrow> string list \<Rightarrow> Version list" where
  "parseLines prefix [] = []"
| "parseLines prefix (text # rest) =
     (case NewVersion (strings_TrimLeft text prefix) of
        None \<Rightarrow> parseLines prefix rest
      | Some ver \<Rightarrow> ver # parseLines prefix rest)"

definition DistVersions ::
  "sorter \<Rightarrow> network \<Rightarrow> string \<Rightarrow> string \<Rightarrow> bool \<Rightarrow> (error + string list) \<times> event list" where
  "DistVersions srt net ipfsDistPath dist sortDesc =
     (case fetch net (path_Join [ipfsDistPath, dist, distVersions]) of
        (Inl err, t) \<Rightarrow> (Inl err, t)
      | (Inr rc, t) \<Rightarrow>
          (let prefix = ''v'';
               sc = scanStream rc;
               vers = parseLines prefix (fst sc)
           in case snd sc of
                Some err \<Rightarrow>
                  (Inl (errorString (Sprintf ''could not read versions: %s'' [Error err])),
                   t @ [CloseStream])
              | None \<Rightarrow>
                  (let vers' = (if sortDesc then srt (Reverse LessThan) vers
                                else srt LessThan vers)
                   in (Inr (map (\<lambda>v. prefix @ Version_String v) vers'), t @ [CloseStream]))))"

text \<open>The loop of \<open>LatestDistVersion\<close> walks the list from its last element down.\<close>

fun lastNonDev :: "string list \<Rightarrow> string option" where
  "lastNonDev [] = None"
| "lastNonDev (ver # rest) =
     (if \<not> strings_Contains ver ''-dev'' then Some ver else lastNonDev rest)"

definition LatestDistVersion ::
  "sorter \<Rightarrow> network \<Rightarrow> string \<Rightarrow> string \<Rightarrow> (error + string) \<times> event list" where
  "LatestDistVersion srt net ipfsDistPath dist =
     (case DistVersions srt net ipfsDistPath dist False of
        (Inl err, t) \<Rightarrow> (Inl err, t)
      | (Inr vs, t) \<Rightarrow>
          (case lastNonDev (rev vs) of
             Some ver \<Rightarrow> (Inr ver, t)
           | None \<Rightarrow> (Inl (errorString ''could not find a non dev version''), t)))"

text \<open>A listing with one token on each line.\<close>

definition listing :: "string list \<Rightarrow> string" where
  "listing ls = concat (map (\<lambda>l. l @ [CHR 0x0A]) ls)"


subsection \<open>The file system and the installer\<close>















subsection \<open>An example system\<close>






section \<open>Properties\<close>

subsection \<open>Archive and distribution path names\<close>

text \<open>
  C9. The archive name is \<open>name_version_OS-ARCH.type\<close> for the host's OS and
  architecture, and the distribution path is \<open>root/dist/version/archive\<close>, for all
  arguments; on a Linux host of architecture amd64 the archive of \<open>ipfs-10-to-11\<close>,
  version \<open>v1.8.0\<close>, is \<open>ipfs-10-to-11_v1.8.0_linux-amd64.tar.gz\<close>.
\<close>

theorem C9_names_format:
  "makeArchiveName h name ver atype
     = name @ ''_'' @ ver @ ''_'' @ GOOS h @ ''-'' @ GOARCH h @ ''.'' @ atype
   \<and> makeIpfsPath root dist ver arc = root @ ''/'' @ dist @ ''/'' @ ver @ ''/'' @ arc
   \<and> makeArchiveName \<lparr>GOOS = ''linux'', GOARCH = ''amd64''\<rparr> ''ipfs-10-to-11'' ''v1.8.0'' ''tar.gz''
       = ''ipfs-10-to-11_v1.8.0_linux-amd64.tar.gz''"
  by (simp add: makeArchiveName_def makeIpfsPath_def)

subsection \<open>Transport fallback\<close>

lemma ipfsFetch_fails_iff: "isl (fst (ipfsFetch net p)) \<longleftrightarrow> daemonFails net p"
  by (auto simp: ipfsFetch_def daemonFails_def split: sum.splits option.splits)

lemma ipfsFetch_trace:
  "filter isDaemonCall (snd (ipfsFetch net p)) = snd (ipfsFetch net p)"
  "filter isHttpCall (snd (ipfsFetch net p)) = []"
  "httpAttempts (snd (ipfsFetch net p)) = []"
  "httpSends (snd (ipfsFetch net p)) = []"
  "takeWhile isDaemonCall (snd (ipfsFetch net p)) = snd (ipfsFetch net p)"
  by (auto simp: ipfsFetch_def split: sum.splits option.splits)

lemma httpFetch_trace:
  "filter isDaemonCall (snd (httpFetch net u)) = []"
  "filter isHttpCall (snd (httpFetch net u)) = snd (httpFetch net u)"
  "httpAttempts (snd (httpFetch net u)) = [u]"
  "httpSends (snd (httpFetch net u)) = (if NewRequest net u = None then [u] else [])"
  "takeWhile isDaemonCall (snd (httpFetch net u)) = []"
  by (auto simp: httpFetch_def split: sum.splits option.splits)

lemma httpAttempts_append: "httpAttempts (xs @ ys) = httpAttempts xs @ httpAttempts ys"
  by (induction xs rule: httpAttempts.induct) auto

lemma httpSends_append: "httpSends (xs @ ys) = httpSends xs @ httpSends ys"
  by (induction xs rule: httpSends.induct) auto

text \<open>
  C1. \<open>fetch\<close> calls the daemon transport first and once. It turns to HTTP exactly when
  the daemon attempt fails (in one of the four ways of \<open>daemonFails\<close>); then it builds
  one request, for the gateway URL followed by the path, sends it at most once, and
  returns what that attempt returns. When the daemon attempt succeeds its stream is
  returned and the trace holds no HTTP call.
\<close>

theorem C1_fetch_fallback:
  "fst (fetch net p) =
     (if daemonFails net p then fst (httpFetch net (gatewayURL @ p)) else fst (ipfsFetch net p))
   \<and> (daemonFails net p \<longleftrightarrow> isl (fst (ipfsFetch net p)))
   \<and> takeWhile isDaemonCall (snd (fetch net p)) = snd (ipfsFetch net p)
   \<and> filter isDaemonCall (snd (fetch net p)) = snd (ipfsFetch net p)
   \<and> filter isHttpCall (snd (fetch net p)) =
       (if daemonFails net p then snd (httpFetch net (gatewayURL @ p)) else [])
   \<and> httpAttempts (snd (fetch net p)) = (if daemonFails net p then [gatewayURL @ p] else [])
   \<and> length (httpSends (snd (fetch net p))) \<le> 1"
proof -
  obtain r t where rt: "ipfsFetch net p = (r, t)" by (cases "ipfsFetch net p")
  have tr: "filter isDaemonCall t = t" "filter isHttpCall t = []" "httpAttempts t = []"
    "httpSends t = []" "takeWhile isDaemonCall t = t"
    using ipfsFetch_trace [of net p] by (simp_all add: rt)
  have fails: "daemonFails net p \<longleftrightarrow> isl r"
    using ipfsFetch_fails_iff [of net p] by (simp add: rt)
  show ?thesis
  proof (cases r)
    case (Inl e)
    then show ?thesis
      using rt tr fails httpFetch_trace [of net "gatewayURL @ p"]
      by (simp add: fetch_def Let_def httpAttempts_append httpSends_append takeWhile_append)
  next
    case (Inr rc)
    then show ?thesis
      using rt tr fails
      by (simp add: fetch_def httpAttempts_append httpSends_append takeWhile_append)
  qed
qed

theorem C1_fetch_fallback_witness:
  "fst (fetch (exampleNet False (bytes ''v1.0.0'')) ''/ipfs/x'')
     = Inr (newLimitReadCloser (bytes ''v1.0.0'') fetchSizeLimit)
   \<and> daemonFails (exampleNet False (bytes ''v1.0.0'')) ''/ipfs/x''
   \<and> httpAttempts (snd (fetch (exampleNet False (bytes ''v1.0.0'')) ''/ipfs/x''))
       = [''https://ipfs.io/ipfs/x'']
   \<and> httpAttempts (snd (fetch (exampleNet True (bytes ''v1.0.0'')) ''/ipfs/x'')) = []
   \<and> \<not> daemonFails (exampleNet True (bytes ''v1.0.0'')) ''/ipfs/x''"
proof -
  have f: "daemonFails (exampleNet False (bytes ''v1.0.0'')) ''/ipfs/x''"
    by (simp add: daemonFails_def exampleNet_def)
  have u: "\<not> daemonFails (exampleNet True (bytes ''v1.0.0'')) ''/ipfs/x''"
    by (simp add: daemonFails_def exampleNet_def)
  have h: "fst (httpFetch (exampleNet False (bytes ''v1.0.0'')) (gatewayURL @ ''/ipfs/x''))
            = Inr (newLimitReadCloser (bytes ''v1.0.0'') fetchSizeLimit)"
    by (simp add: httpFetch_def exampleNet_def)
  show ?thesis
    using C1_fetch_fallback [of "exampleNet False (bytes ''v1.0.0'')" "''/ipfs/x''"]
      C1_fetch_fallback [of "exampleNet True (bytes ''v1.0.0'')" "''/ipfs/x''"] f u h
    by (simp add: gatewayURL_def)
qed

subsection \<open>The bounded stream\<close>

lemma LimitedReader_Read_budget:
  assumes contract: "\<forall>k s. length (fst (fst (rd k s))) \<le> k" and nonneg: "0 \<le> N l"
  shows "int (length (fst (fst (LimitedReader_Read rd k l)))) + N (snd (LimitedReader_Read rd k l)) = N l"
    and "0 \<le> N (snd (LimitedReader_Read rd k l))"
proof -
  let ?k = "if int k > N l then nat (N l) else k"
  have "length (fst (fst (rd ?k (R l)))) \<le> ?k" using contract by blast
  moreover have "int ?k \<le> N l \<or> N l \<le> 0" by auto
  ultimately have le: "N l > 0 \<Longrightarrow> int (length (fst (fst (rd ?k (R l))))) \<le> N l"
    by linarith
  show "int (length (fst (fst (LimitedReader_Read rd k l)))) + N (snd (LimitedReader_Read rd k l)) = N l"
    by (simp add: LimitedReader_Read_def Let_def)
  show "0 \<le> N (snd (LimitedReader_Read rd k l))"
    using le nonneg by (simp add: LimitedReader_Read_def Let_def)
qed

lemma readMany_budget:
  assumes contract: "\<forall>k s. length (fst (fst (rd k s))) \<le> k"
  shows "0 \<le> N l \<Longrightarrow>
     int (length (concat (map fst (fst (readMany rd ks l))))) + N (snd (readMany rd ks l)) = N l
     \<and> 0 \<le> N (snd (readMany rd ks l))"
proof (induction ks arbitrary: l)
  case Nil
  then show ?case by simp
next
  case (Cons k ks)
  let ?r = "LimitedReader_Read rd k l"
  have b: "int (length (fst (fst ?r))) + N (snd ?r) = N l" and n: "0 \<le> N (snd ?r)"
    using LimitedReader_Read_budget [OF contract Cons.prems] by auto
  from Cons.IH [OF n] b show ?case by (simp add: Let_def)
qed

lemma transports_wrap:
  "fst (ipfsFetch net p) = Inr l \<Longrightarrow> N l = fetchSizeLimit"
  "fst (httpFetch net u) = Inr l \<Longrightarrow> N l = fetchSizeLimit"
  by (auto simp: ipfsFetch_def httpFetch_def newLimitReadCloser_def
           split: sum.splits option.splits if_splits)

text \<open>
  C2. Let \<open>l\<close> be the stream either transport returns on success, over an underlying
  reader \<open>rd\<close> that keeps the contract of \<^verbatim>\<open>io.Reader\<close> (it returns at most as many
  bytes as the buffer holds). Whatever \<^verbatim>\<open>Read\<close> calls the caller makes, they yield at
  most 536870912 bytes together; once that many have been yielded the next \<^verbatim>\<open>Read\<close>
  reports end of data and leaves the stream as it is; and \<^verbatim>\<open>Close\<close> at any such point
  is the underlying \<^verbatim>\<open>Close\<close>, applied to the underlying object as the reads left it.
\<close>

theorem C2_bounded_stream:
  assumes contract: "\<forall>k s. length (fst (fst (rd k s))) \<le> k"
    and got: "fst (ipfsFetch net p) = Inr l \<or> fst (httpFetch net u) = Inr l"
  shows "length (concat (map fst (fst (readMany rd ks l)))) \<le> 536870912
    \<and> (length (concat (map fst (fst (readMany rd ks l)))) = 536870912 \<longrightarrow>
         LimitedReader_Read rd k (snd (readMany rd ks l))
           = (([], Some ErrEOF), snd (readMany rd ks l)))
    \<and> limitReadCloser_Close cl (snd (readMany rd ks l))
        = (fst (cl (R (snd (readMany rd ks l)))),
           \<lparr>R = snd (cl (R (snd (readMany rd ks l)))), N = N (snd (readMany rd ks l))\<rparr>)"
proof -
  have n: "N l = 536870912"
    using got transports_wrap [of net p l] transports_wrap [of net u l]
    by (auto simp: fetchSizeLimit_def)
  then have "0 \<le> N l" by simp
  from readMany_budget [OF contract this, of ks] n
  have b: "int (length (concat (map fst (fst (readMany rd ks l)))))
             + N (snd (readMany rd ks l)) = 536870912"
    and nn: "0 \<le> N (snd (readMany rd ks l))" by auto
  have 1: "length (concat (map fst (fst (readMany rd ks l)))) \<le> 536870912"
    using b nn by linarith
  have 2: "length (concat (map fst (fst (readMany rd ks l)))) = 536870912 \<longrightarrow>
         LimitedReader_Read rd k (snd (readMany rd ks l))
           = (([], Some ErrEOF), snd (readMany rd ks l))"
  proof
    assume "length (concat (map fst (fst (readMany rd ks l)))) = 536870912"
    with b have "N (snd (readMany rd ks l)) = 0" by linarith
    then show "LimitedReader_Read rd k (snd (readMany rd ks l))
           = (([], Some ErrEOF), snd (readMany rd ks l))"
      by (simp add: LimitedReader_Read_def)
  qed
  have 3: "limitReadCloser_Close cl (snd (readMany rd ks l))
        = (fst (cl (R (snd (readMany rd ks l)))),
           \<lparr>R = snd (cl (R (snd (readMany rd ks l)))), N = N (snd (readMany rd ks l))\<rparr>)"
    by (simp add: limitReadCloser_Close_def Let_def)
  from 1 2 3 show ?thesis by blast
qed

text \<open>
  The witness: the gateway serves a body of 1 GiB and the caller asks for all of it in
  one \<^verbatim>\<open>Read\<close>, then reads again, then closes. The first call yields 512 MiB, the
  second reports end of data, and the body is closed.
\<close>

theorem C2_bounded_stream_witness:
  "(\<forall>k s. length (fst (fst (source_Read k s))) \<le> k)
   \<and> fst (httpFetch (exampleNet False (bytes (replicate 1073741824 CHR ''a''))) ''u'')
       = Inr (newLimitReadCloser (bytes (replicate 1073741824 CHR ''a'')) fetchSizeLimit)
   \<and> length (concat (map fst (fst (readMany source_Read [1073741824, 1]
        (newLimitReadCloser (bytes (replicate 1073741824 CHR ''a'')) fetchSizeLimit)))))
       = 536870912
   \<and> map snd (fst (readMany source_Read [1073741824, 1]
        (newLimitReadCloser (bytes (replicate 1073741824 CHR ''a'')) fetchSizeLimit)))
       = [None, Some ErrEOF]
   \<and> closed (R (snd (limitReadCloser_Close source_Close (snd (readMany source_Read [1073741824, 1]
        (newLimitReadCloser (bytes (replicate 1073741824 CHR ''a'')) fetchSizeLimit))))))"
proof -
  let ?l = "newLimitReadCloser (bytes (replicate 1073741824 CHR ''a'')) fetchSizeLimit"
  have c: "\<forall>k s. length (fst (fst (source_Read k s))) \<le> k"
    by (simp add: source_Read_def)
  have g: "fst (httpFetch (exampleNet False (bytes (replicate 1073741824 CHR ''a''))) ''u'') = Inr ?l"
    by (simp add: httpFetch_def exampleNet_def)
  have r1: "LimitedReader_Read source_Read 1073741824 ?l
      = ((replicate 536870912 CHR ''a'', None),
         \<lparr>R = \<lparr>pending = replicate 536870912 CHR ''a'', fault = None, closed = False\<rparr>, N = 0\<rparr>)"
    by (simp add: LimitedReader_Read_def newLimitReadCloser_def fetchSizeLimit_def bytes_def
        source_Read_def Let_def)
  have rm: "readMany source_Read [1073741824, 1] ?l
      = ([(replicate 536870912 CHR ''a'', None), ([], Some ErrEOF)],
         \<lparr>R = \<lparr>pending = replicate 536870912 CHR ''a'', fault = None, closed = False\<rparr>, N = 0\<rparr>)"
    by (simp add: r1 Let_def) (simp add: LimitedReader_Read_def)
  from C2_bounded_stream [OF c disjI2 [OF g], of "[1073741824, 1]" 1 source_Close]
  have "limitReadCloser_Close source_Close (snd (readMany source_Read [1073741824, 1] ?l))
        = (fst (source_Close (R (snd (readMany source_Read [1073741824, 1] ?l)))),
           \<lparr>R = snd (source_Close (R (snd (readMany source_Read [1073741824, 1] ?l)))),
            N = N (snd (readMany source_Read [1073741824, 1] ?l))\<rparr>)"
    by blast
  then have cl: "closed (R (snd (limitReadCloser_Close source_Close
                   (snd (readMany source_Read [1073741824, 1] ?l)))))"
    by (simp add: source_Close_def)
  show ?thesis using c g cl unfolding rm by simp
qed

subsection \<open>The platform name\<close>

lemma hasPrefix_iff: "hasPrefix s p \<longleftrightarrow> (\<exists>b. s = p @ b)"
  by (induction s p rule: hasPrefix.induct) auto

lemma strings_Contains_iff: "strings_Contains s sub \<longleftrightarrow> (\<exists>a b. s = a @ sub @ b)"
proof (induction s)
  case Nil
  show ?case by (auto simp: hasPrefix_iff)
next
  case (Cons c cs)
  have "(\<exists>a b. c # cs = a @ sub @ b) \<longleftrightarrow> (\<exists>b. c # cs = sub @ b) \<or> (\<exists>a b. cs = a @ sub @ b)"
  proof
    assume "\<exists>a b. c # cs = a @ sub @ b"
    then obtain a b where ab: "c # cs = a @ sub @ b" by blast
    show "(\<exists>b. c # cs = sub @ b) \<or> (\<exists>a b. cs = a @ sub @ b)"
    proof (cases a)
      case Nil
      with ab show ?thesis by auto
    next
      case (Cons x a')
      with ab have "cs = a' @ sub @ b" by simp
      then show ?thesis by blast
    qed
  next
    assume "(\<exists>b. c # cs = sub @ b) \<or> (\<exists>a b. cs = a @ sub @ b)"
    then show "\<exists>a b. c # cs = a @ sub @ b"
    proof
      assume "\<exists>b. c # cs = sub @ b"
      then obtain b where "c # cs = [] @ sub @ b" by auto
      then show ?thesis by blast
    next
      assume "\<exists>a b. cs = a @ sub @ b"
      then obtain a b where "c # cs = (c # a) @ sub @ b" by auto
      then show ?thesis by blast
    qed
  qed
  with Cons show ?case by (simp add: hasPrefix_iff)
qed

lemma strings_Contains_dropCR:
  assumes "sub \<noteq> []" and "last sub \<noteq> CHR 0x0D"
  shows "strings_Contains (dropCR l) sub \<longleftrightarrow> strings_Contains l sub"
proof (cases "l \<noteq> [] \<and> last l = CHR 0x0D")
  case False
  then show ?thesis by (auto simp: dropCR_def)
next
  case True
  then have d: "dropCR l = butlast l" by (simp add: dropCR_def)
  have l: "l = butlast l @ [CHR 0x0D]"
    using True append_butlast_last_id [of l] by simp
  show ?thesis
  proof
    assume "strings_Contains (dropCR l) sub"
    then obtain a b where "butlast l = a @ sub @ b" using d by (auto simp: strings_Contains_iff)
    then have "l = a @ sub @ (b @ [CHR 0x0D])" using l by (metis append.assoc)
    then show "strings_Contains l sub" unfolding strings_Contains_iff by blast
  next
    assume "strings_Contains l sub"
    then obtain a b where ab: "l = a @ sub @ b" by (auto simp: strings_Contains_iff)
    have "b \<noteq> []"
    proof
      assume "b = []"
      with ab assms(1) have "last l = last sub" by simp
      with True assms(2) show False by simp
    qed
    then have "butlast l = a @ sub @ butlast b" using ab assms(1) by (simp add: butlast_append)
    then show "strings_Contains (dropCR l) sub" unfolding strings_Contains_iff d by blast
  qed
qed

lemma scanForMusl_iff: "scanForMusl ts \<longleftrightarrow> (\<exists>t \<in> set ts. strings_Contains t ''musl'')"
  by (induction ts) auto

lemma scanTokens_short:
  "\<forall>line \<in> set (splitLines data). length line < MaxScanTokenSize \<Longrightarrow>
   scanTokens data = (map dropCR (splitLines data), None)"
proof (induction data rule: splitLines.induct)
  case (1 data)
  show ?case
  proof (cases "data = []")
    case True
    then show ?thesis by (simp add: scanTokens.simps splitLines.simps)
  next
    case False
    let ?line = "takeWhile (\<lambda>c. c \<noteq> CHR 0x0A) data"
    let ?rest = "drop (Suc (length ?line)) data"
    have sp: "splitLines data = ?line # splitLines ?rest"
      using False by (subst splitLines.simps) simp
    have short: "length ?line < MaxScanTokenSize"
      and rest: "\<forall>line \<in> set (splitLines ?rest). length line < MaxScanTokenSize"
      using "1.prems" sp by auto
    from "1.IH" [OF False rest] have "scanTokens ?rest = (map dropCR (splitLines ?rest), None)" .
    then show ?thesis
      using False short sp by (subst scanTokens.simps) (simp add: Let_def)
  qed
qed

text \<open>
  What \<open>osWithVariant\<close> does: off Linux it returns \<open>GOOS\<close> and runs nothing; on Linux it
  runs the probe once, fails exactly when the command cannot be started (the exit status
  of \<^verbatim>\<open>ldd\<close> plays no part), and, when every line of the output is shorter than 64 KiB,
  answers \<open>linux-musl\<close> exactly when a line contains \<open>musl\<close>.
\<close>

lemma osWithVariant_short_lines:
  "GOOS h \<noteq> ''linux'' \<Longrightarrow> osWithVariant h la = (Inr (GOOS h), [])"
  "GOOS h = ''linux'' \<Longrightarrow> snd (osWithVariant h la) = [RunShell ''ldd --version || true'']"
  "GOOS h = ''linux'' \<Longrightarrow>
     fst (osWithVariant h la) = Inl e \<longleftrightarrow> startError la = Some e"
  "GOOS h = ''linux'' \<Longrightarrow> startError la = None \<Longrightarrow>
   \<forall>line \<in> set (splitLines (lddOutput la)). length line < MaxScanTokenSize \<Longrightarrow>
     fst (osWithVariant h la) =
       (if \<exists>line \<in> set (splitLines (lddOutput la)). strings_Contains line ''musl''
        then Inr ''linux-musl'' else Inr ''linux'')"
proof -
  show "GOOS h \<noteq> ''linux'' \<Longrightarrow> osWithVariant h la = (Inr (GOOS h), [])"
    by (simp add: osWithVariant_def)
  show "GOOS h = ''linux'' \<Longrightarrow> snd (osWithVariant h la) = [RunShell ''ldd --version || true'']"
    by (simp add: osWithVariant_def split: prod.splits option.splits)
  show "GOOS h = ''linux'' \<Longrightarrow> fst (osWithVariant h la) = Inl e \<longleftrightarrow> startError la = Some e"
    by (auto simp: osWithVariant_def CombinedOutput_def or_true_def Let_def
             split: prod.splits option.splits if_splits)
  assume lin: "GOOS h = ''linux''" and st: "startError la = None"
    and short: "\<forall>line \<in> set (splitLines (lddOutput la)). length line < MaxScanTokenSize"
  have co: "CombinedOutput la = (lddOutput la, None)"
    using st by (simp add: CombinedOutput_def or_true_def Let_def)
  have "scanForMusl (fst (scanTokens (lddOutput la)))
          \<longleftrightarrow> (\<exists>line \<in> set (splitLines (lddOutput la)). strings_Contains line ''musl'')"
    using scanTokens_short [OF short]
    by (simp add: scanForMusl_iff strings_Contains_dropCR)
  then show "fst (osWithVariant h la) =
       (if \<exists>line \<in> set (splitLines (lddOutput la)). strings_Contains line ''musl''
        then Inr ''linux-musl'' else Inr ''linux'')"
    using lin co by (simp add: osWithVariant_def)
qed

text \<open>
  C8, at an output whose first line is 65536 bytes long and whose second line is
  \<open>musl libc (x86_64)\<close>: the scanner stops at the first line with \<^verbatim>\<open>ErrTooLong\<close>, the
  loop ends, the error of the scanner is not looked at, and the answer is \<open>linux\<close>
  although a line of the output contains \<open>musl\<close>.
\<close>

theorem C8_osWithVariant_long_line:
  "osWithVariant \<lparr>GOOS = ''linux'', GOARCH = ''amd64''\<rparr>
       \<lparr>startError = None,
        lddOutput = replicate 65536 CHR ''a'' @ CHR 0x0A # ''musl libc (x86_64)'',
        lddStatus = 1\<rparr>
     = (Inr ''linux'', [RunShell ''ldd --version || true''])
   \<and> splitLines (replicate 65536 CHR ''a'' @ CHR 0x0A # ''musl libc (x86_64)'')
       = [replicate 65536 CHR ''a'', ''musl libc (x86_64)'']
   \<and> strings_Contains ''musl libc (x86_64)'' ''musl''"
proof -
  let ?a = "replicate 65536 CHR ''a''"
  let ?out = "?a @ CHR 0x0A # ''musl libc (x86_64)''"
  have tw: "takeWhile (\<lambda>c. c \<noteq> CHR 0x0A) ?out = ?a"
    by (subst takeWhile_append2) auto
  have ne: "?out \<noteq> []" by simp
  have sc: "scanTokens ?out = ([], Some ErrTooLong)"
    by (subst scanTokens.simps) (simp only: ne tw Let_def, simp add: MaxScanTokenSize_def)
  have dr: "drop (Suc (length ?a)) ?out = ''musl libc (x86_64)''"
    by simp
  have s2: "splitLines ''musl libc (x86_64)'' = [''musl libc (x86_64)'']"
    by code_simp
  have sl: "splitLines ?out = [?a, ''musl libc (x86_64)'']"
    by (subst splitLines.simps) (simp only: ne tw dr s2, simp)
  have co: "CombinedOutput \<lparr>startError = None, lddOutput = ?out, lddStatus = 1\<rparr> = (?out, None)"
    by (simp add: CombinedOutput_def or_true_def)
  have c: "strings_Contains ''musl libc (x86_64)'' ''musl''" by simp
  show ?thesis
    using sl c by (simp add: osWithVariant_def co sc)
qed

subsection \<open>Precedence and sorting\<close>

lemma stringLess_iff: "stringLess a b \<longleftrightarrow> a < b"
  by (induction a b rule: stringLess.induct) (auto simp: less_char_def)

lemma recursivePreReleaseCompare_key:
  "recursivePreReleaseCompare xs ys =
     (if map idKey xs < map idKey ys then - 1 else if map idKey ys < map idKey xs then 1 else 0)"
proof (induction xs ys rule: recursivePreReleaseCompare.induct)
  case (4 a as b bs)
  show ?case
  proof (cases "idKey a = idKey b")
    case True
    then have ab: "a = b" by (auto simp: idKey_def split: option.splits)
    with 4 show ?thesis by (auto simp: Let_def stringLess_iff)
  next
    case False
    then have ne: "a \<noteq> b" by auto
    consider "idKey a < idKey b" | "idKey b < idKey a" using False by fastforce
    then show ?thesis
    proof cases
      case 1
      then show ?thesis
        using ne by (auto simp: idKey_def Let_def stringLess_iff split: option.splits)
    next
      case 2
      then show ?thesis
        using ne by (auto simp: idKey_def Let_def stringLess_iff split: option.splits)
    qed
  qed
qed simp_all

lemma Compare_key:
  "Compare a b = (if verKey a < verKey b then - 1 else if verKey b < verKey a then 1 else 0)"
  by (auto simp: Compare_def Slice_def preReleaseCompare_def verKey_def Let_def
                 recursivePreReleaseCompare_key)

lemma LessThan_key: "LessThan a b \<longleftrightarrow> verKey a < verKey b"
  by (simp add: LessThan_def Compare_key)

lemma insertionInner_insertRev:
  "insertionInner lt (rev ys @ x # rest) (length ys) = rev (insertRev lt x ys) @ rest"
proof (induction ys arbitrary: rest)
  case Nil
  show ?case by (subst insertionInner.simps) simp
next
  case (Cons y ys)
  let ?data = "rev (y # ys) @ x # rest"
  have j: "?data ! length (y # ys) = x"
    by (metis length_rev nth_append_length)
  have j1: "?data ! (length (y # ys) - 1) = y"
    by (simp add: nth_append)
  have sw: "Swap ?data (length (y # ys)) (length (y # ys) - 1) = rev ys @ x # y # rest"
    unfolding Swap_def j j1 by (simp add: list_update_append)
  show ?case
  proof (cases "lt x y")
    case True
    have "insertionInner lt ?data (length (y # ys))
            = insertionInner lt (rev ys @ x # y # rest) (length ys)"
      by (subst insertionInner.simps) (simp only: j j1 sw True, simp)
    then show ?thesis using Cons.IH [of "y # rest"] True by simp
  next
    case False
    have "insertionInner lt ?data (length (y # ys)) = ?data"
      by (subst insertionInner.simps) (simp only: j j1 False, simp)
    then show ?thesis using False by simp
  qed
qed

lemma length_insertRev: "length (insertRev lt x ys) = Suc (length ys)"
  by (induction ys) auto

lemma insertionOuter_isortRev:
  "insertionOuter lt (rev ys @ rest) (length ys) = rev (isortRev lt ys rest)"
proof (induction rest arbitrary: ys)
  case Nil
  show ?case by (subst insertionOuter.simps) simp
next
  case (Cons x rest)
  have "insertionOuter lt (rev ys @ x # rest) (length ys)
          = insertionOuter lt (rev (insertRev lt x ys) @ rest) (Suc (length ys))"
    by (subst insertionOuter.simps) (simp add: insertionInner_insertRev)
  also have "\<dots> = rev (isortRev lt (insertRev lt x ys) rest)"
    using Cons.IH [of "insertRev lt x ys"] by (simp add: length_insertRev)
  finally show ?case by simp
qed

lemma insertionSort_isortRev: "insertionSort lt data = rev (isortRev lt [] data)"
proof (cases data)
  case Nil
  then show ?thesis
    unfolding insertionSort_def by (subst insertionOuter.simps) simp
next
  case (Cons x rest)
  have "insertionOuter lt (rev [x] @ rest) (length [x]) = rev (isortRev lt [x] rest)"
    by (rule insertionOuter_isortRev)
  then show ?thesis using Cons by (simp add: insertionSort_def)
qed

lemma mset_insertRev: "mset (insertRev lt x ys) = add_mset x (mset ys)"
  by (induction ys) auto

lemma mset_isortRev: "mset (isortRev lt acc xs) = mset acc + mset xs"
  by (induction xs arbitrary: acc) (auto simp: mset_insertRev)

lemma mset_insertionSort: "mset (insertionSort lt xs) = mset xs"
  by (simp add: insertionSort_isortRev mset_isortRev)

lemma set_insertRev: "set (insertRev lt x ys) = insert x (set ys)"
  by (induction ys) auto

lemma sorted_insertRev:
  assumes asym: "\<And>a b. lt a b \<Longrightarrow> \<not> lt b a"
    and trans: "\<And>a b c. \<not> lt b a \<Longrightarrow> \<not> lt c b \<Longrightarrow> \<not> lt c a"
  shows "sorted_wrt (\<lambda>a b. \<not> lt a b) ys \<Longrightarrow> sorted_wrt (\<lambda>a b. \<not> lt a b) (insertRev lt x ys)"
proof (induction ys)
  case Nil
  show ?case by simp
next
  case (Cons y ys)
  show ?case
  proof (cases "lt x y")
    case True
    then have "\<not> lt y x" by (rule asym)
    moreover have "sorted_wrt (\<lambda>a b. \<not> lt a b) (insertRev lt x ys)"
      using Cons by simp
    ultimately show ?thesis using True Cons.prems by (auto simp: set_insertRev)
  next
    case False
    have "\<forall>z \<in> set ys. \<not> lt x z"
    proof
      fix z assume "z \<in> set ys"
      then have "\<not> lt y z" using Cons.prems by simp
      with False show "\<not> lt x z" using trans by blast
    qed
    then show ?thesis using False Cons.prems by simp
  qed
qed

lemma sorted_isortRev:
  assumes asym: "\<And>a b. lt a b \<Longrightarrow> \<not> lt b a"
    and trans: "\<And>a b c. \<not> lt b a \<Longrightarrow> \<not> lt c b \<Longrightarrow> \<not> lt c a"
  shows "sorted_wrt (\<lambda>a b. \<not> lt a b) acc \<Longrightarrow> sorted_wrt (\<lambda>a b. \<not> lt a b) (isortRev lt acc xs)"
proof (induction xs arbitrary: acc)
  case Nil
  then show ?case by simp
next
  case (Cons x xs)
  have "sorted_wrt (\<lambda>a b. \<not> lt a b) (insertRev lt x acc)"
    using asym trans Cons.prems by (rule sorted_insertRev)
  then show ?case using Cons.IH by simp
qed

lemma sorted_insertionSort:
  assumes asym: "\<And>a b. lt a b \<Longrightarrow> \<not> lt b a"
    and trans: "\<And>a b c. \<not> lt b a \<Longrightarrow> \<not> lt c b \<Longrightarrow> \<not> lt c a"
  shows "sorted_wrt (\<lambda>a b. \<not> lt b a) (insertionSort lt xs)"
proof -
  have "sorted_wrt (\<lambda>a b. \<not> lt a b) (isortRev lt [] xs)"
    by (rule sorted_isortRev [OF asym trans]) simp_all
  then show ?thesis
    by (simp add: insertionSort_isortRev sorted_wrt_rev)
qed

lemma sortContract_insertionSort: "sortContract insertionSort"
proof -
  have a: "sorted_wrt (\<lambda>a b. \<not> LessThan b a) (insertionSort LessThan xs)" for xs
    by (rule sorted_insertionSort) (auto simp: LessThan_key)
  have "sorted_wrt (\<lambda>a b. \<not> Reverse LessThan b a) (insertionSort (Reverse LessThan) xs)" for xs
    by (rule sorted_insertionSort) (auto simp: LessThan_key Reverse_def)
  then have d: "sorted_wrt (\<lambda>a b. \<not> LessThan a b) (insertionSort (Reverse LessThan) xs)" for xs
    by (simp add: Reverse_def)
  show ?thesis
    unfolding sortContract_def using a d by (simp add: mset_insertionSort)
qed

subsection \<open>Reading a stream to its end\<close>

lemma drain_all:
  "\<not> closed (R l) \<Longrightarrow> fault (R l) = None \<Longrightarrow> int (length (pending (R l))) \<le> N l \<Longrightarrow>
   fst (drain l) = (pending (R l), None)"
proof (induction l rule: drain.induct)
  case (1 l)
  let ?r = "LimitedReader_Read source_Read copyBufSize l"
  show ?case
  proof (cases "pending (R l) = []")
    case True
    then have "?r = (([], Some ErrEOF), l)"
      using "1.prems" by (simp add: LimitedReader_Read_def source_Read_def Let_def)
    then show ?thesis using True by (subst drain.simps) simp
  next
    case False
    then have pos: "0 < N l" using "1.prems"(3) by (cases "pending (R l)") auto
    define k' where "k' = (if int copyBufSize > N l then nat (N l) else copyBufSize)"
    have k'pos: "0 < k'" using pos by (simp add: k'_def copyBufSize_def)
    have k'le: "int k' \<le> N l" using pos by (simp add: k'_def)
    have r: "?r = ((take k' (pending (R l)), None),
                   \<lparr>R = (R l)\<lparr>pending := drop k' (pending (R l))\<rparr>,
                    N = N l - int (length (take k' (pending (R l))))\<rparr>)"
      using pos False "1.prems"(1)
      by (simp add: LimitedReader_Read_def source_Read_def Let_def k'_def)
    have "fst (drain (snd ?r)) = (pending (R (snd ?r)), None)"
    proof (rule "1.IH" [OF refl])
      show "snd (fst ?r) = None" by (simp add: r)
      show "\<not> closed (R (snd ?r))" using "1.prems"(1) by (simp add: r)
      show "fault (R (snd ?r)) = None" using "1.prems"(2) by (simp add: r)
      show "int (length (pending (R (snd ?r)))) \<le> N (snd ?r)"
        using "1.prems"(3) k'le by (simp add: r min_def)
    qed
    then have "fst (drain (snd ?r)) = (drop k' (pending (R l)), None)"
      by (simp add: r)
    then show ?thesis
      by (subst drain.simps) (simp add: r Let_def)
  qed
qed

lemma scanStream_text:
  assumes "int (length text) \<le> fetchSizeLimit"
    and "\<forall>line \<in> set (splitLines text). length line < MaxScanTokenSize"
  shows "scanStream (newLimitReadCloser (bytes text) fetchSizeLimit)
           = (map dropCR (splitLines text), None)"
proof -
  have "fst (drain (newLimitReadCloser (bytes text) fetchSizeLimit)) = (text, None)"
    using drain_all [of "newLimitReadCloser (bytes text) fetchSizeLimit"] assms(1)
    by (simp add: newLimitReadCloser_def bytes_def)
  then show ?thesis
    using scanTokens_short [OF assms(2)] by (simp add: scanStream_def)
qed

subsection \<open>The version catalogue\<close>

lemma fetch_exampleNet:
  "fetch (exampleNet False s) p =
     (Inr (newLimitReadCloser s fetchSizeLimit),
      [CallApiEndpoint, CallIsUp ''/ip4/127.0.0.1/tcp/5001'',
       CallNewRequest (gatewayURL @ p), CallDo (gatewayURL @ p) ''go-ipfs''])"
  "fetch (exampleNet True s) p =
     (Inr (newLimitReadCloser s fetchSizeLimit),
      [CallApiEndpoint, CallIsUp ''/ip4/127.0.0.1/tcp/5001'',
       CallSendCat ''/ip4/127.0.0.1/tcp/5001'' p,
       LogPrint ''using local ipfs daemon for transfer''])"
  by (simp_all add: fetch_def ipfsFetch_def httpFetch_def exampleNet_def)

lemma splitLines_listing:
  "\<forall>l \<in> set ls. CHR 0x0A \<notin> set l \<Longrightarrow> splitLines (listing ls) = ls"
proof (induction ls)
  case Nil
  show ?case by (subst splitLines.simps) (simp add: listing_def)
next
  case (Cons l ls)
  have l: "listing (l # ls) = l @ CHR 0x0A # listing ls" by (simp add: listing_def)
  have tw: "takeWhile (\<lambda>c. c \<noteq> CHR 0x0A) (l @ CHR 0x0A # listing ls) = l"
    using Cons.prems by (subst takeWhile_append2) auto
  have "splitLines (l @ CHR 0x0A # listing ls) = l # splitLines (listing ls)"
    by (subst splitLines.simps) (simp add: tw)
  then show ?case using Cons l by simp
qed

lemma scanStream_listing:
  assumes "\<forall>l \<in> set ls. CHR 0x0A \<notin> set l \<and> length l < MaxScanTokenSize"
    and "int (length (listing ls)) \<le> fetchSizeLimit"
  shows "scanStream (newLimitReadCloser (bytes (listing ls)) fetchSizeLimit) = (map dropCR ls, None)"
proof -
  have sl: "splitLines (listing ls) = ls" using assms(1) by (simp add: splitLines_listing)
  show ?thesis using scanStream_text [OF assms(2)] assms(1) by (simp add: sl)
qed

lemma DistVersions_ok:
  assumes "fetch net (path_Join [root, dist, distVersions]) = (Inr rc, t)"
    and "scanStream rc = (lines, None)"
  shows "DistVersions srt net root dist desc =
     (Inr (map (\<lambda>v. ''v'' @ Version_String v)
             (srt (if desc then Reverse LessThan else LessThan) (parseLines ''v'' lines))),
      t @ [CloseStream])"
  using assms by (simp add: DistVersions_def Let_def)

lemma DistVersions_InrD:
  assumes "DistVersions srt net root dist desc = (Inr out, t)"
  shows "\<exists>rc t'. fetch net (path_Join [root, dist, distVersions]) = (Inr rc, t')
           \<and> snd (scanStream rc) = None
           \<and> out = map (\<lambda>v. ''v'' @ Version_String v)
                      (srt (if desc then Reverse LessThan else LessThan)
                         (parseLines ''v'' (fst (scanStream rc))))"
  using assms
  by (auto simp: DistVersions_def Let_def split: prod.splits sum.splits option.splits if_splits)

lemma strings_TrimLeft_v: "strings_TrimLeft l ''v'' = dropWhile (\<lambda>c. c = CHR ''v'') l"
  by (simp add: strings_TrimLeft_def)

lemma parseLines_map_filter:
  "parseLines p lines = List.map_filter (\<lambda>l. NewVersion (strings_TrimLeft l p)) lines"
  by (induction lines) (auto simp: List.map_filter_simps split: option.splits)

lemma set_parseLines:
  "ver \<in> set (parseLines p lines) \<longleftrightarrow> (\<exists>l \<in> set lines. NewVersion (strings_TrimLeft l p) = Some ver)"
  by (induction lines) (auto split: option.splits)

lemma isDigit_value: "isDigit c \<Longrightarrow> 48 \<le> int (of_char c)"
  by (auto simp: isDigit_def)

lemma foldl_digits_nonneg:
  "list_all isDigit ds \<Longrightarrow> 0 \<le> n \<Longrightarrow> 0 \<le> foldl (\<lambda>n c. 10 * n + (int (of_char c) - 48)) n ds"
proof (induction ds arbitrary: n)
  case Nil
  then show ?case by simp
next
  case (Cons d ds)
  have "0 \<le> 10 * n + (int (of_char d) - 48)"
    using Cons.prems isDigit_value [of d] by simp
  with Cons show ?case by simp
qed

lemma ParseUint_nonneg: "ParseUint ds = Some n \<Longrightarrow> 0 \<le> n"
  using foldl_digits_nonneg [of ds 0]
  by (auto simp: ParseUint_def digitsValue_def split: if_splits)

lemma ParseInt_nonneg: "ParseInt s = Some n \<Longrightarrow> CHR ''-'' \<notin> set s \<Longrightarrow> 0 \<le> n"
  by (cases s) (auto simp: ParseInt_def split: if_splits option.splits dest: ParseUint_nonneg)

lemma splitOff_fst: "d \<notin> set (fst (splitOff s d))"
  by (auto simp: splitOff_def dest: set_takeWhileD)

lemma dotParts_set: "dotParts s = Some (d0, d1, d2) \<Longrightarrow> set d0 \<subseteq> set s"
  by (auto simp: dotParts_def Let_def split: if_splits dest: set_takeWhileD)

lemma NewVersion_Major_nonneg:
  assumes "NewVersion s = Some v"
  shows "0 \<le> Major v"
proof -
  let ?p = "splitOff (fst (splitOff s CHR ''+'')) CHR ''-''"
  from assms obtain d0 d1 d2 where dp: "dotParts (fst ?p) = Some (d0, d1, d2)"
    and pi: "ParseInt d0 = Some (Major v)"
    by (auto simp: NewVersion_def Let_def split: option.splits if_splits)
  have "CHR ''-'' \<notin> set d0"
    using dotParts_set [OF dp] splitOff_fst [of "CHR ''-''" "fst (splitOff s CHR ''+'')"] by auto
  with pi show ?thesis by (rule ParseInt_nonneg)
qed

lemma showNat_hd: "showNat n \<noteq> [] \<and> isDigit (hd (showNat n))"
proof (induction n rule: showNat.induct)
  case (1 n)
  show ?case
  proof (cases "n < 10")
    case True
    then have "''0123456789'' ! n \<in> set ''0123456789''" by (intro nth_mem) simp
    then show ?thesis using True by (subst (1 2) showNat.simps) (simp add: isDigit_def)
  next
    case False
    with 1 show ?thesis by (subst (1 2) showNat.simps) simp
  qed
qed

lemma Version_String_hd:
  "0 \<le> Major v \<Longrightarrow> Version_String v \<noteq> [] \<and> isDigit (hd (Version_String v))"
  using showNat_hd [of "nat (Major v)"] by (simp add: Version_String_def showInt_def)

text \<open>
  C10. Every string that \<open>DistVersions\<close> returns comes from a line of the listing:
  all the leading \<open>v\<close> of the line are dropped, what is left parses as a version, and
  the string is one \<open>v\<close> followed by the rendering of that version, which begins with a
  digit. This holds for every sorting routine that rearranges its input.
\<close>

theorem C10_single_v_prefix:
  assumes "sortContract srt"
    and "DistVersions srt net root dist desc = (Inr out, t)"
    and "s \<in> set out"
  shows "\<exists>rc t' line ver.
           fetch net (path_Join [root, dist, distVersions]) = (Inr rc, t')
           \<and> line \<in> set (fst (scanStream rc))
           \<and> NewVersion (dropWhile (\<lambda>c. c = CHR ''v'') line) = Some ver
           \<and> s = CHR ''v'' # Version_String ver
           \<and> Version_String ver \<noteq> [] \<and> isDigit (hd (Version_String ver))"
proof -
  from DistVersions_InrD [OF assms(2)] obtain rc t' where
    f: "fetch net (path_Join [root, dist, distVersions]) = (Inr rc, t')"
    and out: "out = map (\<lambda>v. ''v'' @ Version_String v)
                      (srt (if desc then Reverse LessThan else LessThan)
                         (parseLines ''v'' (fst (scanStream rc))))"
    by blast
  let ?vs = "parseLines ''v'' (fst (scanStream rc))"
  have "mset (srt (if desc then Reverse LessThan else LessThan) ?vs) = mset ?vs"
    using assms(1) by (simp add: sortContract_def)
  then have "set (srt (if desc then Reverse LessThan else LessThan) ?vs) = set ?vs"
    by (rule mset_eq_setD)
  with assms(3) out obtain ver where ver: "ver \<in> set ?vs" and s: "s = ''v'' @ Version_String ver"
    by auto
  from ver obtain line where line: "line \<in> set (fst (scanStream rc))"
    and nv: "NewVersion (dropWhile (\<lambda>c. c = CHR ''v'') line) = Some ver"
    by (auto simp: set_parseLines strings_TrimLeft_v)
  have "Version_String ver \<noteq> [] \<and> isDigit (hd (Version_String ver))"
    using NewVersion_Major_nonneg [OF nv] by (rule Version_String_hd)
  with f line nv s show ?thesis by auto
qed

lemma DistVersions_listing:
  assumes "\<forall>l \<in> set ls. CHR 0x0A \<notin> set l \<and> length l < MaxScanTokenSize"
    and "int (length (listing ls)) \<le> fetchSizeLimit"
  shows "fst (DistVersions srt (exampleNet up (bytes (listing ls))) root dist desc) =
     Inr (map (\<lambda>v. ''v'' @ Version_String v)
            (srt (if desc then Reverse LessThan else LessThan) (parseLines ''v'' (map dropCR ls))))"
proof -
  obtain t where
    "fetch (exampleNet up (bytes (listing ls))) (path_Join [root, dist, distVersions])
       = (Inr (newLimitReadCloser (bytes (listing ls)) fetchSizeLimit), t)"
    by (cases up) (simp_all add: fetch_exampleNet)
  from DistVersions_ok [OF this scanStream_listing [OF assms]] show ?thesis by simp
qed

theorem C10_single_v_prefix_witness:
  "sortContract insertionSort
   \<and> fst (DistVersions insertionSort (exampleNet False (bytes (listing [''1.0.0'', ''vv1.0.0''])))
            ''/ipfs/Qm'' ''go-ipfs'' False) = Inr [''v1.0.0'', ''v1.0.0'']
   \<and> (\<exists>rc t' line ver.
         fetch (exampleNet False (bytes (listing [''1.0.0'', ''vv1.0.0''])))
           (path_Join [''/ipfs/Qm'', ''go-ipfs'', distVersions]) = (Inr rc, t')
         \<and> line \<in> set (fst (scanStream rc))
         \<and> NewVersion (dropWhile (\<lambda>c. c = CHR ''v'') line) = Some ver
         \<and> ''v1.0.0'' = CHR ''v'' # Version_String ver
         \<and> Version_String ver \<noteq> [] \<and> isDigit (hd (Version_String ver)))"
proof -
  let ?net = "exampleNet False (bytes (listing [''1.0.0'', ''vv1.0.0'']))"
  let ?r = "DistVersions insertionSort ?net ''/ipfs/Qm'' ''go-ipfs'' False"
  have ev: "map (\<lambda>v. ''v'' @ Version_String v) (insertionSort LessThan (parseLines ''v'' [''1.0.0'', ''vv1.0.0'']))
              = [''v1.0.0'', ''v1.0.0'']"
    by code_simp
  have "fst ?r = Inr (map (\<lambda>v. ''v'' @ Version_String v)
            (insertionSort (if False then Reverse LessThan else LessThan)
               (parseLines ''v'' (map dropCR [''1.0.0'', ''vv1.0.0'']))))"
    by (rule DistVersions_listing)
       (simp_all add: MaxScanTokenSize_def listing_def fetchSizeLimit_def)
  moreover have "map dropCR [''1.0.0'', ''vv1.0.0''] = [''1.0.0'', ''vv1.0.0'']"
    by (simp add: dropCR_def)
  ultimately have out: "fst ?r = Inr [''v1.0.0'', ''v1.0.0'']"
    by (simp only: if_False ev)
  then have pair: "?r = (Inr [''v1.0.0'', ''v1.0.0''], snd ?r)"
    by (metis prod.collapse)
  have mem: "''v1.0.0'' \<in> set [''v1.0.0'', ''v1.0.0'']" by simp
  from C10_single_v_prefix [OF sortContract_insertionSort pair mem] out
    sortContract_insertionSort
  show ?thesis by blast
qed

text \<open>
  C3 says that a line without prefix is returned without one. The listing with the
  lines \<open>1.0.0\<close> and \<open>junk\<close> comes back as \<open>v1.0.0\<close>.
\<close>

theorem C3_counterexample:
  "fst (DistVersions insertionSort (exampleNet False (bytes (listing [''1.0.0'', ''junk''])))
          ''/ipfs/Qm'' ''go-ipfs'' False) = Inr [''v1.0.0'']
   \<and> fst (DistVersions insertionSort (exampleNet False (bytes (listing [''1.0.0'', ''junk''])))
          ''/ipfs/Qm'' ''go-ipfs'' False) \<noteq> Inr [''1.0.0'']"
proof -
  let ?r = "DistVersions insertionSort (exampleNet False (bytes (listing [''1.0.0'', ''junk''])))
              ''/ipfs/Qm'' ''go-ipfs'' False"
  have ev: "map (\<lambda>v. ''v'' @ Version_String v) (insertionSort LessThan (parseLines ''v'' [''1.0.0'', ''junk'']))
              = [''v1.0.0'']"
    by code_simp
  have "fst ?r = Inr (map (\<lambda>v. ''v'' @ Version_String v)
            (insertionSort (if False then Reverse LessThan else LessThan)
               (parseLines ''v'' (map dropCR [''1.0.0'', ''junk'']))))"
    by (rule DistVersions_listing)
       (simp_all add: MaxScanTokenSize_def listing_def fetchSizeLimit_def)
  moreover have "map dropCR [''1.0.0'', ''junk''] = [''1.0.0'', ''junk'']"
    by (simp add: dropCR_def)
  ultimately have "fst ?r = Inr [''v1.0.0'']"
    by (simp only: if_False ev)
  then show ?thesis by simp
qed

text \<open>
  C3, amended. When the fetch succeeds and the scanner delivers the lines without an
  error, \<open>DistVersions\<close> succeeds whatever the lines are. It drops all the leading \<open>v\<close>
  of each line, passes over the lines that then do not parse, and returns, for the lines
  that parse and no others, \<open>v\<close> followed by the rendering of the parsed version (in the
  order the sorting routine gives them).
\<close>

theorem C3_listVersions_filter:
  assumes "sortContract srt"
    and "fetch net (path_Join [root, dist, distVersions]) = (Inr rc, t)"
    and "scanStream rc = (lines, None)"
  shows "\<exists>out. DistVersions srt net root dist desc = (Inr out, t @ [CloseStream])
     \<and> mset out =
         mset (List.map_filter
                 (\<lambda>line. map_option (\<lambda>ver. CHR ''v'' # Version_String ver)
                            (NewVersion (dropWhile (\<lambda>c. c = CHR ''v'') line)))
                 lines)"
proof -
  let ?vs = "parseLines ''v'' lines"
  let ?s = "srt (if desc then Reverse LessThan else LessThan) ?vs"
  have m: "mset ?s = mset ?vs" using assms(1) by (simp add: sortContract_def)
  have mf: "map (\<lambda>v. ''v'' @ Version_String v) (parseLines ''v'' ls) =
        List.map_filter
          (\<lambda>line. map_option (\<lambda>ver. CHR ''v'' # Version_String ver)
                     (NewVersion (dropWhile (\<lambda>c. c = CHR ''v'') line))) ls" for ls
    by (induction ls)
       (auto simp: List.map_filter_simps strings_TrimLeft_v split: option.splits)
  have d: "DistVersions srt net root dist desc =
             (Inr (map (\<lambda>v. ''v'' @ Version_String v) ?s), t @ [CloseStream])"
    by (rule DistVersions_ok [OF assms(2,3)])
  have "mset (map (\<lambda>v. ''v'' @ Version_String v) ?s) = mset (map (\<lambda>v. ''v'' @ Version_String v) ?vs)"
    using m by (metis mset_map)
  then have "mset (map (\<lambda>v. ''v'' @ Version_String v) ?s) =
         mset (List.map_filter
                 (\<lambda>line. map_option (\<lambda>ver. CHR ''v'' # Version_String ver)
                            (NewVersion (dropWhile (\<lambda>c. c = CHR ''v'') line)))
                 lines)"
    unfolding mf .
  with d show ?thesis by blast
qed

theorem C3_listVersions_filter_witness:
  "sortContract insertionSort
   \<and> fetch (exampleNet True (bytes (listing [''v1.0.0'', ''junk'', ''1.2.0'', ''vv0.9.1-dev'', [], ''v1.1.0-dev''])))
        (path_Join [''/ipfs/Qm'', ''go-ipfs'', distVersions])
       = (Inr (newLimitReadCloser
                 (bytes (listing [''v1.0.0'', ''junk'', ''1.2.0'', ''vv0.9.1-dev'', [], ''v1.1.0-dev'']))
                 fetchSizeLimit),
          [CallApiEndpoint, CallIsUp ''/ip4/127.0.0.1/tcp/5001'',
           CallSendCat ''/ip4/127.0.0.1/tcp/5001'' ''/ipfs/Qm/go-ipfs/versions'',
           LogPrint ''using local ipfs daemon for transfer''])
   \<and> scanStream (newLimitReadCloser
                   (bytes (listing [''v1.0.0'', ''junk'', ''1.2.0'', ''vv0.9.1-dev'', [], ''v1.1.0-dev'']))
                   fetchSizeLimit)
       = ([''v1.0.0'', ''junk'', ''1.2.0'', ''vv0.9.1-dev'', [], ''v1.1.0-dev''], None)
   \<and> (\<exists>out t. DistVersions insertionSort
         (exampleNet True (bytes (listing [''v1.0.0'', ''junk'', ''1.2.0'', ''vv0.9.1-dev'', [], ''v1.1.0-dev''])))
         ''/ipfs/Qm'' ''go-ipfs'' False = (Inr out, t)
        \<and> mset out = mset [''v1.0.0'', ''v1.2.0'', ''v0.9.1-dev'', ''v1.1.0-dev''])"
proof -
  let ?ls = "[''v1.0.0'', ''junk'', ''1.2.0'', ''vv0.9.1-dev'', [], ''v1.1.0-dev'']"
  let ?net = "exampleNet True (bytes (listing ?ls))"
  let ?rc = "newLimitReadCloser (bytes (listing ?ls)) fetchSizeLimit"
  have pj: "path_Join [''/ipfs/Qm'', ''go-ipfs'', distVersions] = ''/ipfs/Qm/go-ipfs/versions''"
    by code_simp
  have f: "fetch ?net (path_Join [''/ipfs/Qm'', ''go-ipfs'', distVersions])
       = (Inr ?rc, [CallApiEndpoint, CallIsUp ''/ip4/127.0.0.1/tcp/5001'',
           CallSendCat ''/ip4/127.0.0.1/tcp/5001'' ''/ipfs/Qm/go-ipfs/versions'',
           LogPrint ''using local ipfs daemon for transfer''])"
    by (simp add: pj fetch_exampleNet)
  have "scanStream ?rc = (map dropCR ?ls, None)"
    by (rule scanStream_listing)
       (simp_all add: MaxScanTokenSize_def listing_def fetchSizeLimit_def)
  then have s: "scanStream ?rc = (?ls, None)" by (simp add: dropCR_def)
  have mf: "List.map_filter
                 (\<lambda>line. map_option (\<lambda>ver. CHR ''v'' # Version_String ver)
                            (NewVersion (dropWhile (\<lambda>c. c = CHR ''v'') line))) ?ls
             = [''v1.0.0'', ''v1.2.0'', ''v0.9.1-dev'', ''v1.1.0-dev'']"
    by code_simp
  from C3_listVersions_filter [OF sortContract_insertionSort f s, of False]
  have "\<exists>out t. DistVersions insertionSort ?net ''/ipfs/Qm'' ''go-ipfs'' False = (Inr out, t)
        \<and> mset out = mset [''v1.0.0'', ''v1.2.0'', ''v0.9.1-dev'', ''v1.1.0-dev'']"
    unfolding mf by blast
  with sortContract_insertionSort f s show ?thesis by blast
qed









lemma lastNonDev_rev:
  "lastNonDev (rev vs) =
     (if filter (\<lambda>ver. \<not> strings_Contains ver ''-dev'') vs = [] then None
      else Some (last (filter (\<lambda>ver. \<not> strings_Contains ver ''-dev'') vs)))"
  by (induction vs rule: rev_induct) auto

text \<open>
  C5. \<open>LatestDistVersion\<close> asks for the ascending list. If that call fails, so does
  this one, with the same error. Otherwise, if every entry contains \<open>-dev\<close> (as when
  the list is empty) it fails with the error \<open>could not find a non dev version\<close>, and
  else it returns the last entry that does not contain \<open>-dev\<close>.
\<close>

theorem C5_latest_stable:
  "(DistVersions srt net root dist False = (Inr vs, t) \<longrightarrow>
      LatestDistVersion srt net root dist =
        (if \<forall>ver \<in> set vs. strings_Contains ver ''-dev''
         then Inl (errorString ''could not find a non dev version'')
         else Inr (last (filter (\<lambda>ver. \<not> strings_Contains ver ''-dev'') vs)), t))
   \<and> (DistVersions srt net root dist False = (Inl err, t) \<longrightarrow>
        LatestDistVersion srt net root dist = (Inl err, t))"
  by (auto simp: LatestDistVersion_def lastNonDev_rev filter_empty_conv)

theorem C5_latest_stable_witness:
  "fst (DistVersions insertionSort
          (exampleNet True (bytes (listing [''v1.0.0'', ''v1.1.0-dev'', ''v1.2.0''])))
          ''/ipfs/Qm'' ''go-ipfs'' False) = Inr [''v1.0.0'', ''v1.1.0-dev'', ''v1.2.0'']
   \<and> fst (LatestDistVersion insertionSort
          (exampleNet True (bytes (listing [''v1.0.0'', ''v1.1.0-dev'', ''v1.2.0''])))
          ''/ipfs/Qm'' ''go-ipfs'') = Inr ''v1.2.0''
   \<and> fst (DistVersions insertionSort (exampleNet True (bytes (listing [''v1.0.0-dev''])))
          ''/ipfs/Qm'' ''go-ipfs'' False) = Inr [''v1.0.0-dev'']
   \<and> fst (LatestDistVersion insertionSort (exampleNet True (bytes (listing [''v1.0.0-dev''])))
          ''/ipfs/Qm'' ''go-ipfs'') = Inl (errorString ''could not find a non dev version'')
   \<and> fst (DistVersions insertionSort (exampleNet True (bytes (listing [])))
          ''/ipfs/Qm'' ''go-ipfs'' False) = Inr []
   \<and> fst (LatestDistVersion insertionSort (exampleNet True (bytes (listing [])))
          ''/ipfs/Qm'' ''go-ipfs'') = Inl (errorString ''could not find a non dev version'')"
proof -
  let ?n3 = "exampleNet True (bytes (listing [''v1.0.0'', ''v1.1.0-dev'', ''v1.2.0'']))"
  let ?n1 = "exampleNet True (bytes (listing [''v1.0.0-dev'']))"
  let ?n0 = "exampleNet True (bytes (listing []))"
  have e3: "map (\<lambda>v. ''v'' @ Version_String v)
              (insertionSort LessThan (parseLines ''v'' [''v1.0.0'', ''v1.1.0-dev'', ''v1.2.0'']))
              = [''v1.0.0'', ''v1.1.0-dev'', ''v1.2.0'']"
    by code_simp
  have e1: "map (\<lambda>v. ''v'' @ Version_String v)
              (insertionSort LessThan (parseLines ''v'' [''v1.0.0-dev''])) = [''v1.0.0-dev'']"
    by code_simp
  have e0: "map (\<lambda>v. ''v'' @ Version_String v) (insertionSort LessThan (parseLines ''v'' [])) = []"
    by code_simp
  have dc3: "map dropCR [''v1.0.0'', ''v1.1.0-dev'', ''v1.2.0''] = [''v1.0.0'', ''v1.1.0-dev'', ''v1.2.0'']"
    and dc1: "map dropCR [''v1.0.0-dev''] = [''v1.0.0-dev'']"
    and dc0: "map dropCR [] = []"
    by (simp_all add: dropCR_def)
  have "fst (DistVersions insertionSort ?n3 ''/ipfs/Qm'' ''go-ipfs'' False)
          = Inr (map (\<lambda>v. ''v'' @ Version_String v)
            (insertionSort (if False then Reverse LessThan else LessThan)
               (parseLines ''v'' (map dropCR [''v1.0.0'', ''v1.1.0-dev'', ''v1.2.0'']))))"
    by (rule DistVersions_listing)
       (simp_all add: MaxScanTokenSize_def listing_def fetchSizeLimit_def)
  then have d3: "fst (DistVersions insertionSort ?n3 ''/ipfs/Qm'' ''go-ipfs'' False)
                   = Inr [''v1.0.0'', ''v1.1.0-dev'', ''v1.2.0'']"
    by (simp only: if_False dc3 e3)
  have "fst (DistVersions insertionSort ?n1 ''/ipfs/Qm'' ''go-ipfs'' False)
          = Inr (map (\<lambda>v. ''v'' @ Version_String v)
            (insertionSort (if False then Reverse LessThan else LessThan)
               (parseLines ''v'' (map dropCR [''v1.0.0-dev'']))))"
    by (rule DistVersions_listing)
       (simp_all add: MaxScanTokenSize_def listing_def fetchSizeLimit_def)
  then have d1: "fst (DistVersions insertionSort ?n1 ''/ipfs/Qm'' ''go-ipfs'' False)
                   = Inr [''v1.0.0-dev'']"
    by (simp only: if_False dc1 e1)
  have "fst (DistVersions insertionSort ?n0 ''/ipfs/Qm'' ''go-ipfs'' False)
          = Inr (map (\<lambda>v. ''v'' @ Version_String v)
            (insertionSort (if False then Reverse LessThan else LessThan)
               (parseLines ''v'' (map dropCR []))))"
    by (rule DistVersions_listing)
       (simp_all add: MaxScanTokenSize_def listing_def fetchSizeLimit_def)
  then have d0: "fst (DistVersions insertionSort ?n0 ''/ipfs/Qm'' ''go-ipfs'' False) = Inr []"
    by (simp only: if_False dc0 e0)
  have p3: "DistVersions insertionSort ?n3 ''/ipfs/Qm'' ''go-ipfs'' False
              = (Inr [''v1.0.0'', ''v1.1.0-dev'', ''v1.2.0''],
                 snd (DistVersions insertionSort ?n3 ''/ipfs/Qm'' ''go-ipfs'' False))"
    using d3 by (metis prod.collapse)
  have p1: "DistVersions insertionSort ?n1 ''/ipfs/Qm'' ''go-ipfs'' False
              = (Inr [''v1.0.0-dev''],
                 snd (DistVersions insertionSort ?n1 ''/ipfs/Qm'' ''go-ipfs'' False))"
    using d1 by (metis prod.collapse)
  have p0: "DistVersions insertionSort ?n0 ''/ipfs/Qm'' ''go-ipfs'' False
              = (Inr [], snd (DistVersions insertionSort ?n0 ''/ipfs/Qm'' ''go-ipfs'' False))"
    using d0 by (metis prod.collapse)
  have l3: "fst (LatestDistVersion insertionSort ?n3 ''/ipfs/Qm'' ''go-ipfs'') = Inr ''v1.2.0''"
    using C5_latest_stable [of insertionSort ?n3 "''/ipfs/Qm''" "''go-ipfs''"
        "[''v1.0.0'', ''v1.1.0-dev'', ''v1.2.0'']"
        "snd (DistVersions insertionSort ?n3 ''/ipfs/Qm'' ''go-ipfs'' False)"] p3
    by simp
  have l1: "fst (LatestDistVersion insertionSort ?n1 ''/ipfs/Qm'' ''go-ipfs'')
              = Inl (errorString ''could not find a non dev version'')"
    using C5_latest_stable [of insertionSort ?n1 "''/ipfs/Qm''" "''go-ipfs''"
        "[''v1.0.0-dev'']"
        "snd (DistVersions insertionSort ?n1 ''/ipfs/Qm'' ''go-ipfs'' False)"] p1
    by simp
  have l0: "fst (LatestDistVersion insertionSort ?n0 ''/ipfs/Qm'' ''go-ipfs'')
              = Inl (errorString ''could not find a non dev version'')"
    using C5_latest_stable [of insertionSort ?n0 "''/ipfs/Qm''" "''go-ipfs''" "[]"
        "snd (DistVersions insertionSort ?n0 ''/ipfs/Qm'' ''go-ipfs'' False)"] p0
    by simp
  from d3 l3 d1 l1 d0 l0 show ?thesis by blast
qed

subsection \<open>The installer\<close>














end
